theory Spec2Isabelle
  imports Complex_Main
begin

section \<open>Numbers, randomness and geometry helpers\<close>

text \<open>
  The simulator of \<^verbatim>\<open>script.js\<close> computes with JavaScript numbers. They are modelled
  as real numbers: rounding error, \<^verbatim>\<open>NaN\<close> and the infinities are outside the model.
  \<^verbatim>\<open>Math.round\<close> rounds half up, \<^verbatim>\<open>Math.hypot\<close> is the Euclidean length.
\<close>

definition js_round :: "real \<Rightarrow> int" where
  "js_round v = \<lfloor>v + 1 / 2\<rfloor>"

definition hypot :: "real \<Rightarrow> real \<Rightarrow> real" where
  "hypot a b = sqrt (a\<^sup>2 + b\<^sup>2)"

text \<open>
  \<^verbatim>\<open>Math.random()\<close> returns a number in the half-open unit interval; the type
  \<open>unit_real\<close> holds exactly these. The generator is a stream of such numbers:
  \<open>rnd\<close> reads the next one, \<open>adv\<close> moves on.
\<close>

typedef unit_real = "{r :: real. 0 \<le> r \<and> r < 1}"
  by (rule exI [of _ 0]) simp

setup_lifting type_definition_unit_real

lift_definition unit_half :: unit_real is "1 / 2"
  by simp

type_synonym rng = "nat \<Rightarrow> unit_real"

definition rnd :: "rng \<Rightarrow> real" where
  "rnd r = Rep_unit_real (r 0)"

definition adv :: "rng \<Rightarrow> rng" where
  "adv r = (\<lambda>n. r (Suc n))"

text \<open>
  \<^verbatim>\<open>normalized(vx, vy)\<close>: \<^verbatim>\<open>const m = Math.hypot(vx, vy) || 1; return {x: vx/m, y: vy/m}\<close>.
  The divisor is a definition of its own, so that its being non-zero can be stated
  (HOL's division by zero is total and would hide it). The result object is a pair.
\<close>

definition normalized_divisor :: "real \<Rightarrow> real \<Rightarrow> real" where
  "normalized_divisor vx vy = (if hypot vx vy = 0 then 1 else hypot vx vy)"

definition normalized :: "real \<Rightarrow> real \<Rightarrow> real \<times> real" where
  "normalized vx vy =
     (let m = normalized_divisor vx vy in (vx / m, vy / m))"

section \<open>Growth probability\<close>

text \<open>
  Lines 71-72 of \<^verbatim>\<open>stepSimulation\<close>:
  \<^verbatim>\<open>const g = Number(growthRate.value) / 15000.0; const prob = 1 - Math.pow(1-g, neigh);\<close>
\<close>

definition growth_prob :: "real \<Rightarrow> nat \<Rightarrow> real" where
  "growth_prob rate neigh = (let g = rate / 15000 in 1 - (1 - g) ^ neigh)"

section \<open>Grid sites, geometry of the vessel\<close>

text \<open>
  A grid site is an object \<^verbatim>\<open>{x, y, state, size}\<close> with \<^verbatim>\<open>state\<close> 0 (healthy) or 1 (tumor).
  Field names carry a prefix, as \<open>x\<close> and \<open>y\<close> are wanted as variables.
\<close>

datatype site_state = Healthy | Tumor

record cell =
  cx :: real
  cy :: real
  cstate :: site_state
  csize :: real

text \<open>
  The canvas size comes from the page (not part of \<^verbatim>\<open>script.js\<close>) and the phase of the
  vessel is drawn once when the script loads: the three are parameters. The three sliders
  are read through \<^verbatim>\<open>Number(el.value)\<close>.
\<close>

record geometry =
  canvas_width :: real
  canvas_height :: real
  phase :: real

record controls =
  startAmount :: real
  growthRate :: real
  drugAmount :: real

definition spacing :: real where
  "spacing = 18"

definition cols :: "geometry \<Rightarrow> int" where
  "cols g = \<lfloor>canvas_width g / spacing\<rfloor>"

definition rows :: "geometry \<Rightarrow> int" where
  "rows g = \<lfloor>canvas_height g / spacing\<rfloor>"

definition vesselX :: "geometry \<Rightarrow> real" where
  "vesselX g = of_int \<lfloor>canvas_width g * 0.62\<rfloor>"

definition vessel_slope :: real where
  "vessel_slope = 0.18"

definition vessel_amplitude :: real where
  "vessel_amplitude = 26"

definition vessel_freq :: real where
  "vessel_freq = 0.010"

definition vesselSpeedBase :: real where
  "vesselSpeedBase = 3.2"

definition leechSpeedBase :: real where
  "leechSpeedBase = 2.4"

definition vesselTangentDerivative :: "geometry \<Rightarrow> real \<Rightarrow> real" where
  "vesselTangentDerivative g y =
     vessel_slope + vessel_amplitude * vessel_freq * cos (vessel_freq * y + phase g)"

definition vesselBoundaryX :: "geometry \<Rightarrow> real \<Rightarrow> real" where
  "vesselBoundaryX g y =
     vesselX g + vessel_slope * y + vessel_amplitude * sin (vessel_freq * y + phase g)"

definition isInVesselXY :: "geometry \<Rightarrow> real \<Rightarrow> real \<Rightarrow> bool" where
  "isInVesselXY g x y = (x \<ge> vesselBoundaryX g y)"

definition cellIndex :: "geometry \<Rightarrow> int \<Rightarrow> int \<Rightarrow> int" where
  "cellIndex g ix iy =
     (if ix < 0 \<or> iy < 0 \<or> ix \<ge> cols g \<or> iy \<ge> rows g then - 1 else iy * cols g + ix)"

text \<open>
  Both neighbour functions walk \<^verbatim>\<open>oy = -1..1\<close> (outer loop) and \<^verbatim>\<open>ox = -1..1\<close> (inner
  loop), skip \<^verbatim>\<open>(0,0)\<close>, and keep an index \<^verbatim>\<open>idx\<close> with
  \<^verbatim>\<open>idx >= 0 && cells[idx] && cells[idx].state === 1\<close>.
\<close>

definition neighbor_offsets :: "(int \<times> int) list" where
  "neighbor_offsets =
     [(- 1, - 1), (0, - 1), (1, - 1), (- 1, 0), (1, 0), (- 1, 1), (0, 1), (1, 1)]"

definition grid_ix :: "cell \<Rightarrow> int" where
  "grid_ix c = js_round ((cx c - spacing / 2) / spacing)"

definition grid_iy :: "cell \<Rightarrow> int" where
  "grid_iy c = js_round ((cy c - spacing / 2) / spacing)"

definition tumor_at :: "cell list \<Rightarrow> nat \<Rightarrow> bool" where
  "tumor_at cs idx = (idx < length cs \<and> cstate (cs ! idx) = Tumor)"

definition tumor_at_index :: "cell list \<Rightarrow> int \<Rightarrow> bool" where
  "tumor_at_index cs idx = (idx \<ge> 0 \<and> tumor_at cs (nat idx))"

definition neighbor_indices :: "geometry \<Rightarrow> cell \<Rightarrow> int list" where
  "neighbor_indices g c =
     map (\<lambda>(ox, oy). cellIndex g (grid_ix c + ox) (grid_iy c + oy)) neighbor_offsets"

definition neighborsCount :: "geometry \<Rightarrow> cell list \<Rightarrow> nat \<Rightarrow> nat" where
  "neighborsCount g cs i = length (filter (tumor_at_index cs) (neighbor_indices g (cs ! i)))"

definition neighborTumorIndicesForCellIdx :: "geometry \<Rightarrow> cell list \<Rightarrow> nat \<Rightarrow> nat list" where
  "neighborTumorIndicesForCellIdx g cs idx =
     (if idx < length cs
      then map nat (filter (tumor_at_index cs) (neighbor_indices g (cs ! idx)))
      else [])"

text \<open>\<^verbatim>\<open>initCells\<close>: row by row, site \<^verbatim>\<open>(ix, iy)\<close> at \<^verbatim>\<open>(9 + 18 ix, 9 + 18 iy)\<close>, all healthy.\<close>

definition initCells :: "geometry \<Rightarrow> cell list" where
  "initCells g =
     concat (map (\<lambda>iy. map (\<lambda>ix.
         \<lparr>cx = spacing / 2 + of_nat ix * spacing, cy = spacing / 2 + of_nat iy * spacing,
          cstate = Healthy, csize = 0\<rparr>) [0 ..< nat (cols g)]) [0 ..< nat (rows g)])"

section \<open>The growth pass of \<^verbatim>\<open>stepSimulation\<close>\<close>

text \<open>
  Lines 61-75: the first loop fills \<^verbatim>\<open>newStates\<close> from the sites as they are at the start
  of the tick; \<open>growth_mark\<close> is one round of it (the mark of site \<open>i\<close> and the generator
  after it). Lines 77-81 then apply the marks and draw the size of each new tumor site.
\<close>

definition growth_mark :: "geometry \<Rightarrow> controls \<Rightarrow> cell list \<Rightarrow> nat \<Rightarrow> rng \<Rightarrow> bool \<times> rng" where
  "growth_mark g ctl cs i r =
     (let c = cs ! i in
      if cstate c = Tumor then (True, r)
      else if isInVesselXY g (cx c) (cy c) then (False, r)
      else let neigh = neighborsCount g cs i in
        if neigh > 0
        then (rnd r < growth_prob (growthRate ctl) neigh, adv r)
        else (False, r))"

fun growth_marks :: "geometry \<Rightarrow> controls \<Rightarrow> cell list \<Rightarrow> nat list \<Rightarrow> rng \<Rightarrow> bool list \<times> rng" where
  "growth_marks g ctl cs [] r = ([], r)"
| "growth_marks g ctl cs (i # is) r =
     (let (m, r1) = growth_mark g ctl cs i r;
          (ms, r2) = growth_marks g ctl cs is r1
      in (m # ms, r2))"

fun growth_apply :: "bool list \<Rightarrow> cell list \<Rightarrow> rng \<Rightarrow> cell list \<times> rng" where
  "growth_apply (m # ms) (c # cs) r =
     (if m \<and> cstate c = Healthy
      then let c' = c\<lparr>cstate := Tumor, csize := 6 + rnd r * 10\<rparr>;
               (cs', r') = growth_apply ms cs (adv r)
           in (c' # cs', r')
      else let (cs', r') = growth_apply ms cs r in (c # cs', r'))"
| "growth_apply ms cs r = (cs, r)"

definition growth_pass :: "geometry \<Rightarrow> controls \<Rightarrow> cell list \<Rightarrow> rng \<Rightarrow> cell list \<times> rng" where
  "growth_pass g ctl cs r =
     (let (ms, r1) = growth_marks g ctl cs [0 ..< length cs] r
      in growth_apply ms cs r1)"

section \<open>Particles and the state of the simulation\<close>

text \<open>
  A particle is a JavaScript object; a field the object literal leaves out is
  \<^verbatim>\<open>undefined\<close>: \<open>None\<close> for \<^verbatim>\<open>targetIdx\<close>, \<^verbatim>\<open>parentIdx\<close>, \<^verbatim>\<open>ttl\<close> and \<^verbatim>\<open>steerAggression\<close>,
  \<open>False\<close> for the flags \<^verbatim>\<open>idle\<close>, \<^verbatim>\<open>wander\<close> and \<^verbatim>\<open>dead\<close>, which are only tested for
  truth. \<^verbatim>\<open>type\<close> is \<^verbatim>\<open>'compound'\<close> or \<^verbatim>\<open>'Y'\<close>. The field \<^verbatim>\<open>hasC\<close> is never read and is left out.
\<close>

datatype kind = Compound | Cytotoxic

record particle =
  px :: real
  py :: real
  pvx :: real
  pvy :: real
  ptype :: kind
  leached :: bool
  targetIdx :: "nat option"
  parentIdx :: "nat option"
  idle :: bool
  wander :: bool
  ttl :: "int option"
  steerAggression :: "real option"
  dead :: bool

text \<open>
  The arrays \<^verbatim>\<open>particles\<close> and \<^verbatim>\<open>spawned\<close> hold references to particle objects, and one
  object can be in an array several times: the arrays are lists of addresses into
  \<open>heap\<close>, and \<open>fresh\<close> is the next unused address. \<open>spawned\<close> is the local array of
  \<^verbatim>\<open>stepSimulation\<close>, kept in the state for the length of a tick. \<open>random\<close> is the
  state of \<^verbatim>\<open>Math.random\<close>.
\<close>

record sim =
  cells :: "cell list"
  heap :: "nat \<Rightarrow> particle"
  fresh :: nat
  particles :: "nat list"
  spawned :: "nat list"
  random :: rng

definition upd_part :: "nat \<Rightarrow> (particle \<Rightarrow> particle) \<Rightarrow> sim \<Rightarrow> sim" where
  "upd_part a f s = s\<lparr>heap := (heap s)(a := f (heap s a))\<rparr>"

definition step_rng :: "sim \<Rightarrow> sim" where
  "step_rng s = s\<lparr>random := adv (random s)\<rparr>"

text \<open>\<^verbatim>\<open>c.state = 0; c.size = 0\<close> on the site \<^verbatim>\<open>cells[i]\<close>.\<close>

definition kill :: "nat \<Rightarrow> cell list \<Rightarrow> cell list" where
  "kill i cs = (if i < length cs then cs[i := (cs ! i)\<lparr>cstate := Healthy, csize := 0\<rparr>] else cs)"

definition kill_site :: "nat \<Rightarrow> sim \<Rightarrow> sim" where
  "kill_site i s = s\<lparr>cells := kill i (cells s)\<rparr>"

text \<open>\<^verbatim>\<open>spawned.push({...})\<close>: a new object, and its address at the end of \<^verbatim>\<open>spawned\<close>.\<close>

definition push_spawned :: "particle \<Rightarrow> sim \<Rightarrow> sim" where
  "push_spawned p s =
     s\<lparr>heap := (heap s)(fresh s := p), fresh := Suc (fresh s), spawned := spawned s @ [fresh s]\<rparr>"

text \<open>
  The search for the nearest tumor site (lines 116-121, 230-235 and 366-371):
  \<^verbatim>\<open>bestIdx = -1, bestD = 1e9\<close>, and a site replaces the best one when it is strictly nearer.
\<close>

fun nearest_scan :: "cell list \<Rightarrow> nat \<Rightarrow> real \<Rightarrow> real \<Rightarrow> nat option \<Rightarrow> real \<Rightarrow> nat option" where
  "nearest_scan [] ti x y best bestD = best"
| "nearest_scan (t # ts) ti x y best bestD =
     (if cstate t \<noteq> Tumor then nearest_scan ts (Suc ti) x y best bestD
      else let d = hypot (cx t - x) (cy t - y) in
        if d < bestD then nearest_scan ts (Suc ti) x y (Some ti) d
        else nearest_scan ts (Suc ti) x y best bestD)"

definition nearestTumor :: "cell list \<Rightarrow> real \<Rightarrow> real \<Rightarrow> nat option" where
  "nearestTumor cs x y = nearest_scan cs 0 x y None 1000000000"

text \<open>
  The contact scans (lines 194-198 and 283-287): the first tumor site, in index order,
  within \<^verbatim>\<open>c.size + margin\<close> of the particle.
\<close>

fun contact_scan :: "cell list \<Rightarrow> nat \<Rightarrow> real \<Rightarrow> real \<Rightarrow> real \<Rightarrow> nat option" where
  "contact_scan [] ci x y margin = None"
| "contact_scan (c # cs) ci x y margin =
     (if cstate c = Tumor \<and> hypot (cx c - x) (cy c - y) \<le> csize c + margin then Some ci
      else contact_scan cs (Suc ci) x y margin)"

section \<open>Transport of one particle (lines 92-190)\<close>

definition leech_speed :: "controls \<Rightarrow> real" where
  "leech_speed ctl = leechSpeedBase * (1 + drugAmount ctl / 120)"

definition steer_toward :: "cell \<Rightarrow> real \<Rightarrow> particle \<Rightarrow> particle" where
  "steer_toward tgt speed p =
     (let (dx, dy) = normalized (cx tgt - px p) (cy tgt - py p)
      in p\<lparr>pvx := dx * speed, pvy := dy * speed\<rparr>)"

definition go_idle :: "particle \<Rightarrow> particle" where
  "go_idle p = p\<lparr>idle := True, pvx := 0, pvy := 0\<rparr>"

text \<open>Lines 93-104: a cytotoxic particle with a target heads for it, or goes idle.\<close>

definition steer_cytotoxic :: "controls \<Rightarrow> cell list \<Rightarrow> particle \<Rightarrow> particle" where
  "steer_cytotoxic ctl cs p =
     (case targetIdx p of
        Some t \<Rightarrow>
          if ptype p = Cytotoxic \<and> \<not> idle p
          then (if tumor_at cs t then steer_toward (cs ! t) (leech_speed ctl) p else go_idle p)
          else p
      | None \<Rightarrow> p)"

text \<open>Lines 107-125: a leached compound with a target heads for it, or looks for a new one.\<close>

definition steer_compound :: "controls \<Rightarrow> cell list \<Rightarrow> particle \<Rightarrow> particle" where
  "steer_compound ctl cs p =
     (case targetIdx p of
        Some t \<Rightarrow>
          if ptype p = Compound \<and> leached p \<and> \<not> idle p
          then (if tumor_at cs t then steer_toward (cs ! t) (leech_speed ctl) p
                else (case nearestTumor cs (px p) (py p) of
                        Some b \<Rightarrow> p\<lparr>targetIdx := Some b\<rparr>
                      | None \<Rightarrow> go_idle p))
          else p
      | None \<Rightarrow> p)"

definition move :: "particle \<Rightarrow> particle" where
  "move p = p\<lparr>px := px p + pvx p, py := py p + pvy p\<rparr>"

text \<open>Lines 145-150 and 154-159: push perpendicular to the vessel, into the muscle.\<close>

definition push_perpendicular :: "geometry \<Rightarrow> real \<Rightarrow> particle \<Rightarrow> particle" where
  "push_perpendicular g speed p =
     (let dxdy = vesselTangentDerivative g (py p);
          (nx, ny) = normalized (- 1) dxdy;
          (nx', ny') = (if nx > 0 then (- nx, - ny) else (nx, ny))
      in p\<lparr>pvx := nx' * speed, pvy := ny' * speed\<rparr>)"

text \<open>Lines 131-190: a particle that has not leached either crosses the boundary or follows the vessel.\<close>

definition vessel_step :: "geometry \<Rightarrow> controls \<Rightarrow> cell list \<Rightarrow> particle \<Rightarrow> particle" where
  "vessel_step g ctl cs p =
     (if leached p then p
      else if px p \<le> vesselBoundaryX g (py p)
      then (let q = p\<lparr>leached := True\<rparr>; speed = leech_speed ctl in
            case targetIdx q of
              Some t \<Rightarrow>
                if ptype q = Compound
                then (if tumor_at cs t then steer_toward (cs ! t) speed q
                      else push_perpendicular g speed q)
                else push_perpendicular g speed q
            | None \<Rightarrow> push_perpendicular g speed q)
      else (let dxdy = vesselTangentDerivative g (py p);
                (dirx, diry) = normalized (- 1) (- dxdy);
                flow = vesselSpeedBase * (1 + drugAmount ctl / 80);
                follow = p\<lparr>pvx := dirx * flow, pvy := diry * flow\<rparr>
            in case targetIdx p of
                 Some t \<Rightarrow>
                   if ptype p = Compound
                   then (if t < length cs
                         then (let tgt = cs ! t;
                                   (tdx, tdy) = normalized (cx tgt - px p) (cy tgt - py p);
                                   alpha = (case steerAggression p of Some al \<Rightarrow> al | None \<Rightarrow> 0.9);
                                   mixX = dirx * (1 - alpha) + tdx * alpha;
                                   mixY = diry * (1 - alpha) + tdy * alpha;
                                   (ndx, ndy) = normalized mixX mixY;
                                   speed = flow * (1 + (alpha - 0.5) * 0.4)
                               in p\<lparr>pvx := ndx * speed, pvy := ndy * speed\<rparr>)
                         else follow)
                   else follow
               | None \<Rightarrow> follow))"

definition transport :: "geometry \<Rightarrow> controls \<Rightarrow> cell list \<Rightarrow> particle \<Rightarrow> particle" where
  "transport g ctl cs p =
     vessel_step g ctl cs (move (steer_compound ctl cs (steer_cytotoxic ctl cs p)))"

section \<open>Interaction of one particle with the grid (lines 192-307)\<close>

text \<open>
  Lines 217-221, 268-274 and 289-294: with 30 percent chance, kill one tumor neighbour of
  site \<open>idx\<close>. \<^verbatim>\<open>Math.random()\<close> is called only if there is a tumor neighbour, and a
  second time for the pick if the first draw is below 0.30.
\<close>

definition cascade_kill :: "geometry \<Rightarrow> nat \<Rightarrow> sim \<Rightarrow> sim" where
  "cascade_kill g idx s =
     (let nn = neighborTumorIndicesForCellIdx g (cells s) idx in
      if length nn > 0
      then (if rnd (random s) < 0.30
            then (let s1 = step_rng s;
                      pick = nn ! nat \<lfloor>rnd (random s1) * of_nat (length nn)\<rfloor>;
                      s2 = step_rng s1
                  in if tumor_at (cells s2) pick then kill_site pick s2 else s2)
            else step_rng s)
      else s)"

definition idle_cytotoxic :: "real \<Rightarrow> real \<Rightarrow> nat \<Rightarrow> particle" where
  "idle_cytotoxic x y cIdx =
     \<lparr>px = x, py = y, pvx = 0, pvy = 0, ptype = Cytotoxic, leached = True,
      targetIdx = None, parentIdx = Some cIdx, idle = True, wander = False,
      ttl = Some 80, steerAggression = None, dead = False\<rparr>"

definition seeking_cytotoxic :: "real \<Rightarrow> real \<Rightarrow> real \<Rightarrow> cell \<Rightarrow> nat \<Rightarrow> nat \<Rightarrow> particle" where
  "seeking_cytotoxic rx ry sp t tIdx cIdx =
     (let (dx, dy) = normalized (cx t - rx) (cy t - ry) in
      \<lparr>px = rx, py = ry, pvx = dx * sp, pvy = dy * sp, ptype = Cytotoxic, leached = True,
       targetIdx = Some tIdx, parentIdx = Some cIdx, idle = False, wander = False,
       ttl = Some 220, steerAggression = None, dead = False\<rparr>)"

text \<open>
  Lines 206-244: round \<open>k\<close> of the loop that spawns the four cytotoxic particles for the
  contacted site \<open>cIdx\<close> (already killed, so that \<^verbatim>\<open>c.size\<close> reads 0), with the tumor
  neighbours \<open>neighborTumors\<close> found before the loop.
\<close>

definition split_one :: "geometry \<Rightarrow> nat \<Rightarrow> nat list \<Rightarrow> nat \<Rightarrow> sim \<Rightarrow> sim" where
  "split_one g cIdx neighborTumors k s =
     (let c = cells s ! cIdx;
          rx = cx c + (rnd (random s) - 0.5) * csize c * 0.45;
          s1 = step_rng s;
          ry = cy c + (rnd (random s1) - 0.5) * csize c * 0.45;
          s2 = step_rng s1;
          sp = 0.9 + rnd (random s2) * 0.4;
          s3 = step_rng s2
      in if length neighborTumors > 0
         then (let tIdx = neighborTumors ! (k mod length neighborTumors) in
               if tumor_at (cells s3) tIdx
               then (let s4 = cascade_kill g tIdx (kill_site tIdx s3);
                         t = cells s4 ! tIdx;
                         x = cx t + (rnd (random s4) - 0.5) * csize t * 0.4;
                         s5 = step_rng s4;
                         y = cy t + (rnd (random s5) - 0.5) * csize t * 0.4;
                         s6 = step_rng s5
                     in push_spawned (idle_cytotoxic x y cIdx) s6)
               else push_spawned (seeking_cytotoxic rx ry sp (cells s3 ! tIdx) tIdx cIdx) s3)
         else (case nearestTumor (cells s3) rx ry of
                 Some bestIdx \<Rightarrow>
                   push_spawned (seeking_cytotoxic rx ry sp (cells s3 ! bestIdx) bestIdx cIdx) s3
               | None \<Rightarrow> push_spawned (idle_cytotoxic rx ry cIdx) s3))"

text \<open>
  Lines 194-250: a leached compound that touches a tumor site kills it, spawns four
  cytotoxic particles and is marked dead; the scan stops at the first contact.
\<close>

definition compound_contact :: "geometry \<Rightarrow> nat \<Rightarrow> sim \<Rightarrow> sim" where
  "compound_contact g a s =
     (case contact_scan (cells s) 0 (px (heap s a)) (py (heap s a)) 9 of
        Some cIdx \<Rightarrow>
          (let s1 = kill_site cIdx s;
               neighborTumors = neighborTumorIndicesForCellIdx g (cells s1) cIdx;
               s2 = fold (split_one g cIdx neighborTumors) [0, 1, 2, 3] s1
           in upd_part a (\<lambda>p. p\<lparr>dead := True\<rparr>) s2)
      | None \<Rightarrow> s)"

text \<open>Lines 254-301: what a cytotoxic particle does to the grid.\<close>

definition cytotoxic_contact :: "geometry \<Rightarrow> nat \<Rightarrow> sim \<Rightarrow> sim" where
  "cytotoxic_contact g a s =
     (let part = heap s a in
      case targetIdx part of
        Some t \<Rightarrow>
          if tumor_at (cells s) t
          then (let tgt = cells s ! t in
                if hypot (cx tgt - px part) (cy tgt - py part) \<le> csize tgt + 10
                then (let s1 = kill_site t s;
                          s2 = (case parentIdx part of
                                  Some pa \<Rightarrow> if tumor_at (cells s1) pa then kill_site pa s1 else s1
                                | None \<Rightarrow> s1);
                          s3 = cascade_kill g t s2
                      in upd_part a (\<lambda>p. p\<lparr>dead := True\<rparr>) s3)
                else s)
          else upd_part a (\<lambda>p. p\<lparr>dead := True\<rparr>) s
      | None \<Rightarrow>
          (case contact_scan (cells s) 0 (px part) (py part) 10 of
             Some cIdx \<Rightarrow>
               upd_part a (\<lambda>p. p\<lparr>dead := True\<rparr>) (cascade_kill g cIdx (kill_site cIdx s))
           | None \<Rightarrow> s))"

text \<open>Line 304: \<^verbatim>\<open>if(part.wander && Math.random() < 0.015) part.dead = true\<close>.\<close>

definition wander_decay :: "nat \<Rightarrow> sim \<Rightarrow> sim" where
  "wander_decay a s =
     (if wander (heap s a)
      then (if rnd (random s) < 0.015
            then upd_part a (\<lambda>p. p\<lparr>dead := True\<rparr>) (step_rng s)
            else step_rng s)
      else s)"

text \<open>Line 307: a particle more than 40 outside the canvas is marked dead.\<close>

definition off_canvas :: "geometry \<Rightarrow> nat \<Rightarrow> sim \<Rightarrow> sim" where
  "off_canvas g a s =
     (let part = heap s a in
      if px part < - 40 \<or> px part > canvas_width g + 40
         \<or> py part < - 40 \<or> py part > canvas_height g + 40
      then upd_part a (\<lambda>p. p\<lparr>dead := True\<rparr>) s
      else s)"

text \<open>
  Lines 193-308. The block opened by \<^verbatim>\<open>if(part.type === 'compound' && part.leached){\<close> on
  line 193 is closed by the brace of line 308 only: the block for cytotoxic particles
  (line 254), the decay of wanderers (line 304) and the canvas test (line 307) are inside it.
\<close>

definition interact :: "geometry \<Rightarrow> nat \<Rightarrow> sim \<Rightarrow> sim" where
  "interact g a s =
     (if ptype (heap s a) = Compound \<and> leached (heap s a)
      then (let s1 = compound_contact g a s;
                s2 = (if ptype (heap s1 a) = Cytotoxic then cytotoxic_contact g a s1 else s1);
                s3 = wander_decay a s2
            in off_canvas g a s3)
      else s)"

section \<open>The particle loop and the tick\<close>

text \<open>
  Lines 310-318, which the brace of line 308 leaves inside the body of the particle loop:
  \<^verbatim>\<open>spawned\<close> (never emptied during the tick) is appended to \<^verbatim>\<open>particles\<close> up to the cap of
  1200, and the objects marked dead are filtered out.
\<close>

definition MAX_PARTICLES :: nat where
  "MAX_PARTICLES = 1200"

definition append_spawned :: "sim \<Rightarrow> sim" where
  "append_spawned s =
     (if length (particles s) + length (spawned s) > MAX_PARTICLES
      then (let allowed = MAX_PARTICLES - length (particles s)
            in s\<lparr>particles := particles s @ take allowed (spawned s)\<rparr>)
      else s\<lparr>particles := particles s @ spawned s\<rparr>)"

definition purge_dead :: "sim \<Rightarrow> sim" where
  "purge_dead s = s\<lparr>particles := filter (\<lambda>a. \<not> dead (heap s a)) (particles s)\<rparr>"

definition age_particle :: "particle \<Rightarrow> particle" where
  "age_particle p = p\<lparr>ttl := Some (case ttl p of None \<Rightarrow> 300 | Some t \<Rightarrow> t - 1)\<rparr>"

definition expired :: "particle \<Rightarrow> bool" where
  "expired p = (case ttl p of Some t \<Rightarrow> t \<le> 0 | None \<Rightarrow> False)"

text \<open>
  One round of \<^verbatim>\<open>for(let i=0;i<particles.length;i++)\<close> (lines 85-318) for the index \<open>i\<close>:
  the \<^verbatim>\<open>continue\<close> of line 90 skips the rest of the body, the appending and the purge included.
\<close>

definition particle_iter :: "geometry \<Rightarrow> controls \<Rightarrow> sim \<Rightarrow> nat \<Rightarrow> sim" where
  "particle_iter g ctl s i =
     (let a = particles s ! i;
          s1 = upd_part a age_particle s
      in if expired (heap s1 a) then upd_part a (\<lambda>p. p\<lparr>dead := True\<rparr>) s1
         else (let s2 = upd_part a (transport g ctl (cells s1)) s1;
                   s3 = interact g a s2
               in purge_dead (append_spawned s3)))"

lemma particles_upd_part [simp]: "particles (upd_part a f s) = particles s"
  by (simp add: upd_part_def)

lemma particles_step_rng [simp]: "particles (step_rng s) = particles s"
  by (simp add: step_rng_def)

lemma particles_kill_site [simp]: "particles (kill_site i s) = particles s"
  by (simp add: kill_site_def)

lemma particles_push_spawned [simp]: "particles (push_spawned p s) = particles s"
  by (simp add: push_spawned_def)

lemma particles_cascade_kill [simp]: "particles (cascade_kill g idx s) = particles s"
  by (simp add: cascade_kill_def Let_def)

lemma particles_split_one [simp]: "particles (split_one g cIdx nt k s) = particles s"
  by (simp add: split_one_def Let_def split: option.splits)

lemma particles_compound_contact [simp]: "particles (compound_contact g a s) = particles s"
  by (simp add: compound_contact_def Let_def split: option.splits)

lemma particles_cytotoxic_contact [simp]: "particles (cytotoxic_contact g a s) = particles s"
  by (simp add: cytotoxic_contact_def Let_def split: option.splits)

lemma particles_wander_decay [simp]: "particles (wander_decay a s) = particles s"
  by (simp add: wander_decay_def)

lemma particles_off_canvas [simp]: "particles (off_canvas g a s) = particles s"
  by (simp add: off_canvas_def Let_def)

lemma particles_interact [simp]: "particles (interact g a s) = particles s"
  by (simp add: interact_def Let_def)

lemma length_append_spawned:
  "length (particles (append_spawned s)) \<le> max MAX_PARTICLES (length (particles s))"
proof (cases "length (particles s) + length (spawned s) > MAX_PARTICLES")
  case True
  then show ?thesis by (simp add: append_spawned_def Let_def)
next
  case False
  then show ?thesis by (simp add: append_spawned_def)
qed

lemma length_purge_dead: "length (particles (purge_dead s)) \<le> length (particles s)"
  by (simp add: purge_dead_def)

lemma length_particle_iter:
  "length (particles (particle_iter g ctl s i)) \<le> max MAX_PARTICLES (length (particles s))"
proof -
  have "length (particles (purge_dead (append_spawned t)))
          \<le> max MAX_PARTICLES (length (particles t))" for t
    using length_purge_dead [of "append_spawned t"] length_append_spawned [of t] by linarith
  then show ?thesis
    by (simp add: particle_iter_def Let_def del: max.bounded_iff)
       (metis particles_interact particles_upd_part)
qed

function particle_loop :: "geometry \<Rightarrow> controls \<Rightarrow> sim \<Rightarrow> nat \<Rightarrow> sim" where
  "particle_loop g ctl s i =
     (if i < length (particles s) then particle_loop g ctl (particle_iter g ctl s i) (Suc i)
      else s)"
  by pat_completeness auto
termination
proof (relation "measure (\<lambda>(g :: geometry, ctl :: controls, s :: sim, i :: nat).
                    max MAX_PARTICLES (length (particles s)) - i)")
  fix g :: geometry and ctl :: controls and s :: sim and i :: nat
  assume "i < length (particles s)"
  then show "((g, ctl, particle_iter g ctl s i, Suc i), (g, ctl, s, i))
      \<in> measure (\<lambda>(g :: geometry, ctl :: controls, s :: sim, i :: nat).
                    max MAX_PARTICLES (length (particles s)) - i)"
    using length_particle_iter [of g ctl s i] by simp
qed simp

declare particle_loop.simps [simp del]

text \<open>
  \<^verbatim>\<open>stepSimulation\<close>: the growth pass, then the particle loop from index 0 with an empty
  \<^verbatim>\<open>spawned\<close>. The function then declares \<^verbatim>\<open>interactWithWall\<close>, which nothing calls, and
  assigns \<^verbatim>\<open>window.spawnDrugParticles\<close>: that assignment changes no field of this state and
  is recorded in the state of the page, by \<open>tick\<close> below.
\<close>

definition stepSimulation :: "geometry \<Rightarrow> controls \<Rightarrow> sim \<Rightarrow> sim" where
  "stepSimulation g ctl s =
     (let (cs, r) = growth_pass g ctl (cells s) (random s)
      in particle_loop g ctl (s\<lparr>cells := cs, random := r, spawned := []\<rparr>) 0)"

section \<open>Seeding the cluster (\<^verbatim>\<open>seedInitial\<close>, \<^verbatim>\<open>start\<close>)\<close>

text \<open>
  The state of the expansion loop of \<^verbatim>\<open>seedInitial\<close>: the sites, the generator, the queue
  \<^verbatim>\<open>q\<close>, the set \<^verbatim>\<open>seen\<close> and the counter \<^verbatim>\<open>seeded\<close>.
\<close>

record seeding =
  s_cells :: "cell list"
  s_random :: rng
  queue :: "nat list"
  seen :: "nat set"
  seeded :: nat

text \<open>
  Line 581, the shuffle: \<^verbatim>\<open>for(i = neigh.length-1; i > 0; i--)\<close> swaps \<^verbatim>\<open>neigh[i]\<close> with
  \<^verbatim>\<open>neigh[j]\<close>, \<^verbatim>\<open>j = Math.floor(Math.random()*(i+1))\<close>.
\<close>

fun shuffle :: "nat \<Rightarrow> 'a list \<Rightarrow> rng \<Rightarrow> 'a list \<times> rng" where
  "shuffle 0 xs r = (xs, r)"
| "shuffle (Suc i) xs r =
     (let j = nat \<lfloor>rnd r * of_nat (Suc i + 1)\<rfloor>
      in shuffle i (xs[Suc i := xs ! j, j := xs ! Suc i]) (adv r))"

text \<open>Lines 583-584: a neighbour inside the grid and not yet seen is marked seen and queued.\<close>

definition enqueue :: "geometry \<Rightarrow> int \<times> int \<Rightarrow> seeding \<Rightarrow> seeding" where
  "enqueue g n st =
     (let nidx = cellIndex g (fst n) (snd n) in
      if nidx \<ge> 0 \<and> nat nidx \<notin> seen st
      then st\<lparr>seen := insert (nat nidx) (seen st), queue := queue st @ [nat nidx]\<rparr>
      else st)"

text \<open>Lines 572-574: a healthy site becomes a tumor site of radius 12 to 22.\<close>

definition seed_convert :: "nat \<Rightarrow> seeding \<Rightarrow> seeding" where
  "seed_convert idx st =
     (let c = s_cells st ! idx in
      if cstate c = Healthy
      then st\<lparr>s_cells := (s_cells st)[idx := c\<lparr>cstate := Tumor,
                                                csize := 12 + rnd (s_random st) * 10\<rparr>],
              s_random := adv (s_random st),
              seeded := Suc (seeded st)\<rparr>
      else st)"

text \<open>Lines 576-585: the eight neighbours of the site, shuffled, are queued.\<close>

definition seed_spread :: "geometry \<Rightarrow> cell \<Rightarrow> seeding \<Rightarrow> seeding" where
  "seed_spread g c st =
     (let neigh = map (\<lambda>(ox, oy). (grid_ix c + ox, grid_iy c + oy)) neighbor_offsets;
          (neigh', r') = shuffle (length neigh - 1) neigh (s_random st)
      in fold (enqueue g) neigh' (st\<lparr>s_random := r'\<rparr>))"

text \<open>Lines 568-585: one round of the \<^verbatim>\<open>while\<close> loop, for a queue that is not empty.\<close>

definition seed_step :: "geometry \<Rightarrow> seeding \<Rightarrow> seeding" where
  "seed_step g st =
     (case queue st of
        [] \<Rightarrow> st
      | idx # rest \<Rightarrow>
          (let st1 = st\<lparr>queue := rest\<rparr> in
           if idx \<ge> length (s_cells st1) then st1
           else let c = s_cells st1 ! idx in
             if isInVesselXY g (cx c) (cy c) then st1
             else seed_spread g c (seed_convert idx st1)))"

definition seed_measure :: "geometry \<Rightarrow> seeding \<Rightarrow> nat" where
  "seed_measure g st =
     2 * card ({0 ..< nat (cols g * rows g)} - seen st) + length (queue st)"

lemma cellIndex_bound:
  assumes "0 \<le> cellIndex g ix iy"
  shows "cellIndex g ix iy < cols g * rows g"
proof -
  from assms have b: "0 \<le> ix" "ix < cols g" "0 \<le> iy" "iy + 1 \<le> rows g"
    by (auto simp: cellIndex_def split: if_splits)
  then have "(iy + 1) * cols g \<le> rows g * cols g"
    by (intro mult_right_mono) simp_all
  then have "iy * cols g + ix < cols g * rows g"
    using b by (simp add: algebra_simps)
  then show ?thesis using b by (simp add: cellIndex_def)
qed

lemma enqueue_measure: "seed_measure g (enqueue g n st) \<le> seed_measure g st"
proof (cases "cellIndex g (fst n) (snd n) \<ge> 0 \<and> nat (cellIndex g (fst n) (snd n)) \<notin> seen st")
  case False
  then have "enqueue g n st = st"
    unfolding enqueue_def Let_def by (simp only: if_False)
  then show ?thesis by simp
next
  case True
  let ?k = "nat (cellIndex g (fst n) (snd n))"
  let ?U = "{0 ..< nat (cols g * rows g)}"
  have eq: "enqueue g n st = st\<lparr>seen := insert ?k (seen st), queue := queue st @ [?k]\<rparr>"
    unfolding enqueue_def Let_def using True by (simp only: simp_thms if_True)
  have k: "?k \<in> ?U - seen st"
    using True cellIndex_bound [of g "fst n" "snd n"] by simp
  have "?U - insert ?k (seen st) = (?U - seen st) - {?k}" by blast
  then have "card (?U - insert ?k (seen st)) = card (?U - seen st) - 1"
    using k by (simp only: card_Diff_singleton)
  moreover have "0 < card (?U - seen st)"
    using k by (metis card_gt_0_iff empty_iff finite_Diff finite_atLeastLessThan)
  ultimately show ?thesis
    by (simp add: eq seed_measure_def)
qed

lemma fold_enqueue_measure: "seed_measure g (fold (enqueue g) ns st) \<le> seed_measure g st"
proof (induction ns arbitrary: st)
  case Nil
  then show ?case by simp
next
  case (Cons n ns)
  show ?case
    using Cons [of "enqueue g n st"] enqueue_measure [of g n st] by simp
qed

lemma seed_spread_measure: "seed_measure g (seed_spread g c st) \<le> seed_measure g st"
proof -
  let ?neigh = "map (\<lambda>(ox, oy). (grid_ix c + ox, grid_iy c + oy)) neighbor_offsets"
  obtain ns r where sh: "shuffle (length ?neigh - 1) ?neigh (s_random st) = (ns, r)"
    by (cases "shuffle (length ?neigh - 1) ?neigh (s_random st)")
  have sp: "seed_spread g c st = fold (enqueue g) ns (st\<lparr>s_random := r\<rparr>)"
    unfolding seed_spread_def Let_def sh by simp
  have "seed_measure g (st\<lparr>s_random := r\<rparr>) = seed_measure g st"
    by (simp add: seed_measure_def)
  then show ?thesis
    using fold_enqueue_measure [of g ns "st\<lparr>s_random := r\<rparr>"] by (simp only: sp)
qed

lemma seed_convert_measure: "seed_measure g (seed_convert idx st) = seed_measure g st"
  by (simp add: seed_convert_def seed_measure_def Let_def)

lemma seed_step_measure:
  assumes "queue st \<noteq> []"
  shows "seed_measure g (seed_step g st) < seed_measure g st"
proof -
  obtain idx rest where q: "queue st = idx # rest"
    using assms by (cases "queue st") auto
  let ?st1 = "st\<lparr>queue := rest\<rparr>"
  have drop: "seed_measure g ?st1 < seed_measure g st"
    by (simp add: seed_measure_def q)
  have "seed_measure g (seed_spread g c (seed_convert idx ?st1)) < seed_measure g st" for c
    using seed_spread_measure [of g c "seed_convert idx ?st1"] drop
    by (simp only: seed_convert_measure)
  then show ?thesis
    using drop by (simp add: seed_step_def q Let_def)
qed

function seed_loop :: "geometry \<Rightarrow> nat \<Rightarrow> seeding \<Rightarrow> seeding" where
  "seed_loop g targetCount st =
     (if queue st \<noteq> [] \<and> seeded st < targetCount
      then seed_loop g targetCount (seed_step g st)
      else st)"
  by pat_completeness auto
termination
proof (relation "measure (\<lambda>(g :: geometry, targetCount :: nat, st :: seeding). seed_measure g st)")
  fix g :: geometry and targetCount :: nat and st :: seeding
  assume "queue st \<noteq> [] \<and> seeded st < targetCount"
  then show "((g, targetCount, seed_step g st), (g, targetCount, st))
      \<in> measure (\<lambda>(g :: geometry, targetCount :: nat, st :: seeding). seed_measure g st)"
    using seed_step_measure [of st g] by simp
qed simp

declare seed_loop.simps [simp del]

text \<open>
  Lines 554-561 of \<^verbatim>\<open>seedInitial\<close>: the start site, near mid-height and three grid steps left
  of the vessel boundary, or the middle site of the array if that index is off the grid.
\<close>

definition seedStartIdx :: "geometry \<Rightarrow> sim \<Rightarrow> nat" where
  "seedStartIdx g s =
     (let yc = canvas_height g * (0.35 + rnd (random s) * 0.3);
          bx = vesselBoundaryX g yc;
          xc = max spacing (bx - spacing * 3);
          centerIx = js_round ((xc - spacing / 2) / spacing);
          centerIy = js_round ((yc - spacing / 2) / spacing)
      in if cellIndex g centerIx centerIy \<ge> 0
         then nat (cellIndex g centerIx centerIy)
         else length (cells s) div 2)"

text \<open>
  \<^verbatim>\<open>seedInitial\<close> (lines 546-587): all sites are made healthy, the start site is queued, and
  the loop runs until \<^verbatim>\<open>targetCount\<close> sites are seeded or the queue is empty.
\<close>

definition seedInitial :: "geometry \<Rightarrow> controls \<Rightarrow> sim \<Rightarrow> sim" where
  "seedInitial g ctl s =
     (let cs0 = map (\<lambda>c. c\<lparr>cstate := Healthy, csize := 0\<rparr>) (cells s);
          pct = max 0 (min 100 (startAmount ctl));
          targetCount = max 3 (js_round (pct / 100 * 45));
          startIdx = seedStartIdx g s;
          st = seed_loop g (nat targetCount)
                 \<lparr>s_cells = cs0, s_random = adv (random s), queue = [startIdx],
                  seen = {startIdx}, seeded = 0\<rparr>
      in s\<lparr>cells := s_cells st, random := s_random st\<rparr>)"

text \<open>
  \<^verbatim>\<open>start\<close> (lines 603-610), for a simulation that is not running: \<^verbatim>\<open>initCells(); seedInitial();
  particles = []\<close>. The timer that calls \<^verbatim>\<open>tick\<close> is outside the model.
\<close>

definition start :: "geometry \<Rightarrow> controls \<Rightarrow> sim \<Rightarrow> sim" where
  "start g ctl s = (seedInitial g ctl (s\<lparr>cells := initCells g\<rparr>))\<lparr>particles := []\<rparr>"

section \<open>Dosing (\<^verbatim>\<open>spawnDrugParticles\<close>)\<close>

text \<open>\<^verbatim>\<open>particles.push({...})\<close>: a new object, and its address at the end of \<^verbatim>\<open>particles\<close>.\<close>

definition push_particle :: "particle \<Rightarrow> sim \<Rightarrow> sim" where
  "push_particle p s =
     s\<lparr>heap := (heap s)(fresh s := p), fresh := Suc (fresh s),
       particles := particles s @ [fresh s]\<rparr>"

text \<open>
  Lines 354-386: one round of the loop of \<^verbatim>\<open>spawnDrugParticles\<close>. The particle wanders if the
  draw says so or if no tumor site is found.
\<close>

definition spawn_one :: "geometry \<Rightarrow> real \<Rightarrow> sim \<Rightarrow> sim" where
  "spawn_one g amount s =
     (let y = rnd (random s) * canvas_height g;
          s1 = step_rng s;
          boundaryX = vesselBoundaryX g y;
          x = boundaryX + 4 + rnd (random s1) * (canvas_width g - boundaryX - 4);
          s2 = step_rng s1;
          wanderChance = 0.02 + rnd (random s2) * 0.01;
          s3 = step_rng s2;
          wanders = (rnd (random s3) < wanderChance);
          s4 = step_rng s3
      in case (if wanders then None else nearestTumor (cells s4) x y) of
           Some bestIdx \<Rightarrow>
             (let best = cells s4 ! bestIdx;
                  (dx, dy) = normalized (cx best - x) (cy best - y);
                  speed = vesselSpeedBase * (1 + amount / 80) * (0.95 + rnd (random s4) * 0.2);
                  s5 = step_rng s4
              in push_particle
                   \<lparr>px = x, py = y, pvx = dx * speed, pvy = dy * speed, ptype = Compound,
                    leached = False, targetIdx = Some bestIdx, parentIdx = None, idle = False,
                    wander = False, ttl = Some 400, steerAggression = Some 0.92, dead = False\<rparr>
                   s5)
         | None \<Rightarrow>
             (let ang = rnd (random s4) * pi * 2;
                  s5 = step_rng s4;
                  sp = (vesselSpeedBase * 0.6) * (0.6 + rnd (random s5) * 0.8);
                  s6 = step_rng s5
              in push_particle
                   \<lparr>px = x, py = y, pvx = cos ang * sp, pvy = sin ang * sp, ptype = Compound,
                    leached = False, targetIdx = None, parentIdx = None, idle = False,
                    wander = True, ttl = Some 120, steerAggression = None, dead = False\<rparr>
                   s6))"

text \<open>
  The function of lines 347-388, as run on a call \<^verbatim>\<open>spawnDrugParticles(dose)\<close>; \<open>None\<close>
  stands for a \<^verbatim>\<open>dose\<close> that \<^verbatim>\<open>Number\<close> turns into \<^verbatim>\<open>NaN\<close>. \<^verbatim>\<open>!amount\<close> holds for 0 and
  \<^verbatim>\<open>NaN\<close>. This is the function value only: whether the name \<^verbatim>\<open>spawnDrugParticles\<close> is
  bound when it is called is part of the state of the page, below.
\<close>

definition spawnDrugParticles :: "geometry \<Rightarrow> real option \<Rightarrow> sim \<Rightarrow> sim" where
  "spawnDrugParticles g dose s =
     (case dose of
        None \<Rightarrow> s
      | Some amount \<Rightarrow>
          if amount = 0 \<or> amount \<le> 0 then s
          else (let toSpawn = max 1 (js_round amount)
                in ((spawn_one g amount) ^^ nat toSpawn) s))"

section \<open>The page: when \<^verbatim>\<open>spawnDrugParticles\<close> exists\<close>

text \<open>
  The assignment \<^verbatim>\<open>window.spawnDrugParticles = function(dose){...}\<close> of line 347 is a
  statement of the body of \<^verbatim>\<open>stepSimulation\<close> (the brace of line 389 closes the function
  opened on line 59). The state of the page is the state of the simulation and whether
  that assignment has run. A call of a name that is not bound raises \<^verbatim>\<open>ReferenceError\<close>.
\<close>

datatype js_error = ReferenceError

record page =
  world :: sim
  spawn_assigned :: bool

text \<open>
  The script as loaded (lines 54-57 and 637): \<^verbatim>\<open>initCells()\<close>, no particles, and
  \<^verbatim>\<open>spawnDrugParticles\<close> not yet assigned.
\<close>

definition page_loaded :: "geometry \<Rightarrow> (nat \<Rightarrow> particle) \<Rightarrow> rng \<Rightarrow> page" where
  "page_loaded g h r =
     \<lparr>world = \<lparr>cells = initCells g, heap = h, fresh = 0, particles = [], spawned = [],
               random = r\<rparr>,
      spawn_assigned = False\<rparr>"

text \<open>
  A call of \<^verbatim>\<open>stepSimulation()\<close> on the page: the tick, and then the assignment of line 347.
  \<^verbatim>\<open>tick\<close> (lines 590-593) is this call followed by \<^verbatim>\<open>draw()\<close>, which changes nothing.
\<close>

definition tick :: "geometry \<Rightarrow> controls \<Rightarrow> page \<Rightarrow> page" where
  "tick g ctl p = \<lparr>world = stepSimulation g ctl (world p), spawn_assigned = True\<rparr>"

text \<open>\<^verbatim>\<open>start\<close> on the page: it assigns nothing but the grid and the particles.\<close>

definition start_page :: "geometry \<Rightarrow> controls \<Rightarrow> page \<Rightarrow> page" where
  "start_page g ctl p = p\<lparr>world := start g ctl (world p)\<rparr>"

text \<open>A call \<^verbatim>\<open>spawnDrugParticles(dose)\<close> made on the page.\<close>

definition call_spawnDrugParticles :: "geometry \<Rightarrow> real option \<Rightarrow> page \<Rightarrow> js_error + page" where
  "call_spawnDrugParticles g dose p =
     (if spawn_assigned p
      then Inr (p\<lparr>world := spawnDrugParticles g dose (world p)\<rparr>)
      else Inl ReferenceError)"

text \<open>
  \<^verbatim>\<open>giveDose\<close> (lines 596-600), the handler of the dose button:
  \<^verbatim>\<open>const dose = Number(drugAmount.value); if(dose <= 0) return; spawnDrugParticles(dose);\<close>
\<close>

definition giveDose :: "geometry \<Rightarrow> controls \<Rightarrow> page \<Rightarrow> js_error + page" where
  "giveDose g ctl p =
     (let dose = drugAmount ctl in
      if dose \<le> 0 then Inr p else call_spawnDrugParticles g (Some dose) p)"

section \<open>Predicates and example states used in the statements\<close>

text \<open>A growth mark is given only to a site that is Tumor or outside the vessel.\<close>

definition mark_ok :: "geometry \<Rightarrow> bool \<Rightarrow> cell \<Rightarrow> bool" where
  "mark_ok g m c = (m \<longrightarrow> cstate c = Tumor \<or> \<not> isInVesselXY g (cx c) (cy c))"

text \<open>No tumor site lies in the vessel.\<close>

definition vessel_free :: "geometry \<Rightarrow> cell list \<Rightarrow> bool" where
  "vessel_free g cs = (\<forall>c \<in> set cs. cstate c = Tumor \<longrightarrow> \<not> isInVesselXY g (cx c) (cy c))"

text \<open>
  The states of the simulation that the page can reach, and more: the script loads
  (\<^verbatim>\<open>initCells()\<close>, no particles), and then \<^verbatim>\<open>start\<close>, ticks and doses follow in any order,
  with any slider values. The rule for doses runs the function of lines 347-388 in any
  state, also where the page would raise \<^verbatim>\<open>ReferenceError\<close> and change nothing.
\<close>

inductive reachable :: "geometry \<Rightarrow> sim \<Rightarrow> bool" for g :: geometry where
  loaded: "reachable g \<lparr>cells = initCells g, heap = h, fresh = f, particles = [],
                        spawned = [], random = r\<rparr>"
| started: "reachable g s \<Longrightarrow> reachable g (start g ctl s)"
| ticked: "reachable g s \<Longrightarrow> reachable g (stepSimulation g ctl s)"
| dosed: "reachable g s \<Longrightarrow> reachable g (spawnDrugParticles g dose s)"

text \<open>
  The states of the page itself: a dose, from the button or by a direct call, changes the
  state only if the call returns.
\<close>

inductive page_reachable :: "geometry \<Rightarrow> page \<Rightarrow> bool" for g :: geometry where
  page_is_loaded: "page_reachable g (page_loaded g h r)"
| page_started: "page_reachable g p \<Longrightarrow> page_reachable g (start_page g ctl p)"
| page_ticked: "page_reachable g p \<Longrightarrow> page_reachable g (tick g ctl p)"
| page_dosed: "page_reachable g p \<Longrightarrow> giveDose g ctl p = Inr p' \<Longrightarrow> page_reachable g p'"
| page_called: "page_reachable g p \<Longrightarrow> call_spawnDrugParticles g dose p = Inr p'
                 \<Longrightarrow> page_reachable g p'"

text \<open>The sites are where \<^verbatim>\<open>initCells\<close> puts them.\<close>

definition on_grid :: "geometry \<Rightarrow> cell list \<Rightarrow> bool" where
  "on_grid g cs = (map (\<lambda>c. (cx c, cy c)) cs = map (\<lambda>c. (cx c, cy c)) (initCells g))"

text \<open>
  Two sites are 8-adjacent if they differ and are at most one grid step apart in each
  direction. The tumor sites are 8-connected if any two of them are joined by a chain of
  8-adjacent tumor sites.
\<close>

definition adjacent8 :: "cell \<Rightarrow> cell \<Rightarrow> bool" where
  "adjacent8 c d =
     ((cx c \<noteq> cx d \<or> cy c \<noteq> cy d) \<and> \<bar>cx c - cx d\<bar> \<le> spacing \<and> \<bar>cy c - cy d\<bar> \<le> spacing)"

definition tumor_links :: "cell list \<Rightarrow> (nat \<times> nat) set" where
  "tumor_links cs = {(i, j). tumor_at cs i \<and> tumor_at cs j \<and> adjacent8 (cs ! i) (cs ! j)}"

definition connected8 :: "cell list \<Rightarrow> bool" where
  "connected8 cs = (\<forall>i j. tumor_at cs i \<and> tumor_at cs j \<longrightarrow> (i, j) \<in> (tumor_links cs)\<^sup>*)"

text \<open>The left boundary of the vessel stays at least 4 left of the right edge of the canvas.\<close>

definition vessel_on_canvas :: "geometry \<Rightarrow> bool" where
  "vessel_on_canvas g =
     (\<forall>t. 0 \<le> t \<and> t < 1 \<longrightarrow> vesselBoundaryX g (t * canvas_height g) + 4 \<le> canvas_width g)"

text \<open>
  A compound as a dose makes it: either aimed at a tumor site of the grid \<open>cs\<close> with
  steering aggression 0.92 and 400 ticks to live, or wandering with 120.
\<close>

definition dose_made :: "cell list \<Rightarrow> particle \<Rightarrow> bool" where
  "dose_made cs p =
     (ptype p = Compound \<and> \<not> leached p \<and> \<not> dead p
      \<and> (case targetIdx p of
            Some t \<Rightarrow> tumor_at cs t \<and> steerAggression p = Some 0.92 \<and> \<not> wander p
                       \<and> ttl p = Some 400
          | None \<Rightarrow> wander p \<and> ttl p = Some 120))"

text \<open>The particle is inside the vessel.\<close>

definition in_vessel :: "geometry \<Rightarrow> particle \<Rightarrow> bool" where
  "in_vessel g p = isInVesselXY g (px p) (py p)"

text \<open>
  A compound that flows in the vessel, has no target, is not about to expire and is still
  right of the boundary after its next move.
\<close>

definition flowing :: "geometry \<Rightarrow> particle \<Rightarrow> bool" where
  "flowing g p =
     (ptype p = Compound \<and> \<not> leached p \<and> targetIdx p = None \<and> \<not> dead p
      \<and> (case ttl p of Some t \<Rightarrow> 1 < t | None \<Rightarrow> True)
      \<and> vesselBoundaryX g (py p + pvy p) < px p + pvx p)"

text \<open>A canvas of 900 by 520 (50 by 28 sites), the sliders at 50.\<close>

definition ex_geometry :: geometry where
  "ex_geometry = \<lparr>canvas_width = 900, canvas_height = 520, phase = 0\<rparr>"

definition ex_controls :: controls where
  "ex_controls = \<lparr>startAmount = 50, growthRate = 50, drugAmount = 50\<rparr>"

text \<open>
  A wandering compound as \<^verbatim>\<open>spawnDrugParticles\<close> makes it when there is no tumor site,
  in the vessel at (880, 100).
\<close>

definition ex_wanderer :: particle where
  "ex_wanderer =
     \<lparr>px = 880, py = 100, pvx = 1.92, pvy = 0, ptype = Compound, leached = False,
      targetIdx = None, parentIdx = None, idle = False, wander = True,
      ttl = Some 120, steerAggression = None, dead = False\<rparr>"

text \<open>A healthy grid and 1201 such compounds, as after \<^verbatim>\<open>spawnDrugParticles(1201)\<close>.\<close>

definition ex_crowded :: sim where
  "ex_crowded =
     \<lparr>cells = initCells ex_geometry, heap = (\<lambda>a. ex_wanderer), fresh = 1201,
      particles = [0 ..< 1201], spawned = [], random = (\<lambda>n. unit_half)\<rparr>"

text \<open>A cytotoxic particle as the split of a compound makes it (seeking with ttl 220, or idle with ttl 80).\<close>

definition newborn :: "particle \<Rightarrow> bool" where
  "newborn p =
     (ptype p = Cytotoxic \<and> leached p \<and> \<not> dead p \<and> \<not> wander p
      \<and> (ttl p = Some 80 \<or> ttl p = Some 220))"

text \<open>The grid of the example canvas with one tumor site of radius 12, site 720 at (369, 261).\<close>

definition ex_tumor_grid :: "cell list" where
  "ex_tumor_grid =
     (initCells ex_geometry)[720 := (initCells ex_geometry ! 720)\<lparr>cstate := Tumor, csize := 12\<rparr>]"

text \<open>A seeking cytotoxic particle on its target, site 720.\<close>

definition ex_seeker :: particle where
  "ex_seeker =
     \<lparr>px = 369, py = 261, pvx = 0, pvy = 0, ptype = Cytotoxic, leached = True,
      targetIdx = Some 720, parentIdx = Some 721, idle = False, wander = False,
      ttl = Some 220, steerAggression = None, dead = False\<rparr>"

text \<open>The seeker alone, its target a tumor site.\<close>

definition ex_targeted :: sim where
  "ex_targeted =
     \<lparr>cells = ex_tumor_grid, heap = (\<lambda>a. ex_seeker), fresh = 1,
      particles = [0], spawned = [], random = (\<lambda>n. unit_half)\<rparr>"

text \<open>The seeker alone, its target healthy.\<close>

definition ex_orphaned :: sim where
  "ex_orphaned =
     \<lparr>cells = initCells ex_geometry, heap = (\<lambda>a. ex_seeker), fresh = 1,
      particles = [0], spawned = [], random = (\<lambda>n. unit_half)\<rparr>"

text \<open>A leached compound heading for site 720, 23 away from its centre.\<close>

definition ex_compound :: particle where
  "ex_compound =
     \<lparr>px = 392, py = 261, pvx = - 3.4, pvy = 0, ptype = Compound, leached = True,
      targetIdx = Some 720, parentIdx = None, idle = False, wander = False,
      ttl = Some 300, steerAggression = Some 0.92, dead = False\<rparr>"

text \<open>The compound alone, about to touch the tumor site.\<close>

definition ex_contact :: sim where
  "ex_contact =
     \<lparr>cells = ex_tumor_grid, heap = (\<lambda>a. ex_compound), fresh = 1,
      particles = [0], spawned = [], random = (\<lambda>n. unit_half)\<rparr>"

text \<open>The state of the page when the script has loaded.\<close>

definition ex_loaded :: sim where
  "ex_loaded =
     \<lparr>cells = initCells ex_geometry, heap = (\<lambda>a. ex_wanderer), fresh = 0,
      particles = [], spawned = [], random = (\<lambda>n. unit_half)\<rparr>"

text \<open>Every tumor site is joined to the site \<open>s0\<close>, itself a tumor site, by a chain of tumor sites.\<close>

definition seed_linked :: "cell list \<Rightarrow> nat \<Rightarrow> bool" where
  "seed_linked cs s0 = (tumor_at cs s0 \<and> (\<forall>k. tumor_at cs k \<longrightarrow> (s0, k) \<in> (tumor_links cs)\<^sup>*))"

text \<open>
  What holds after every round of the seeding loop started at the site \<open>s0\<close>: either nothing
  is seeded yet, or the tumor sites are linked to \<open>s0\<close> and every queued site is 8-adjacent
  to a tumor site.
\<close>

definition seed_inv :: "geometry \<Rightarrow> nat \<Rightarrow> seeding \<Rightarrow> bool" where
  "seed_inv g s0 st =
     (on_grid g (s_cells st)
      \<and> (((\<forall>k. \<not> tumor_at (s_cells st) k) \<and> (queue st = [] \<or> queue st = [s0]))
         \<or> (seed_linked (s_cells st) s0
            \<and> (\<forall>j \<in> set (queue st).
                  \<exists>t. tumor_at (s_cells st) t \<and> adjacent8 (s_cells st ! t) (s_cells st ! j)))))"

text \<open>The start site is a site outside the vessel, and it is seeded or still to be taken from the queue.\<close>

definition seed_alive :: "geometry \<Rightarrow> nat \<Rightarrow> seeding \<Rightarrow> bool" where
  "seed_alive g s0 st =
     (s0 < length (s_cells st)
      \<and> \<not> isInVesselXY g (cx (s_cells st ! s0)) (cy (s_cells st ! s0))
      \<and> ((\<exists>k. tumor_at (s_cells st) k) \<or> (queue st = [s0] \<and> seeded st = 0)))"

text \<open>The example canvas with a phase that puts the boundary at 604.8 at height 260.\<close>

definition ex_seed_geometry :: geometry where
  "ex_seed_geometry = \<lparr>canvas_width = 900, canvas_height = 520, phase = 2 * pi - 2.6\<rparr>"

text \<open>The page when the script has loaded, on that canvas.\<close>

definition ex_seed_state :: sim where
  "ex_seed_state =
     \<lparr>cells = initCells ex_seed_geometry, heap = (\<lambda>a. ex_wanderer), fresh = 0,
      particles = [], spawned = [], random = (\<lambda>n. unit_half)\<rparr>"

text \<open>The example page when the script has loaded.\<close>

definition ex_page :: page where
  "ex_page = page_loaded ex_geometry (\<lambda>a. ex_wanderer) (\<lambda>n. unit_half)"

section \<open>Properties of the helpers\<close>

lemma rnd_range: "0 \<le> rnd r \<and> rnd r < 1"
  using Rep_unit_real [of "r 0"] by (simp add: rnd_def)

lemma rnd_unit_half [simp]: "rnd (\<lambda>n. unit_half) = 1 / 2"
  by (simp add: rnd_def unit_half.rep_eq)

lemma adv_const [simp]: "adv (\<lambda>n. c) = (\<lambda>n. c)"
  by (simp add: adv_def)

lemma hypot_nonneg: "0 \<le> hypot a b"
  by (simp add: hypot_def)

lemma hypot_eq_0_iff: "hypot a b = 0 \<longleftrightarrow> a = 0 \<and> b = 0"
  by (simp add: hypot_def sum_power2_eq_zero_iff)

lemma hypot_scale:
  assumes "0 < m"
  shows "hypot (a / m) (b / m) = hypot a b / m"
proof -
  have "(a / m)\<^sup>2 + (b / m)\<^sup>2 = (a\<^sup>2 + b\<^sup>2) / m\<^sup>2"
    by (simp add: power_divide add_divide_distrib)
  then have "hypot (a / m) (b / m) = sqrt ((a\<^sup>2 + b\<^sup>2) / m\<^sup>2)"
    by (simp add: hypot_def)
  also have "\<dots> = sqrt (a\<^sup>2 + b\<^sup>2) / m"
    using assms by (simp add: real_sqrt_divide)
  finally show ?thesis by (simp add: hypot_def)
qed

lemma hypot_3_4: "hypot 3 4 = 5"
proof -
  have "sqrt ((5::real)\<^sup>2) = 5" by (simp only: real_sqrt_abs)
  then show ?thesis by (simp add: hypot_def)
qed

text \<open>
  C10 (as the code has it). The helper never divides by zero: a zero length is
  replaced by the divisor 1. A non-zero vector is mapped to a vector of length 1. The zero
  vector is mapped to the zero vector \<open>(0, 0)\<close>, which is not a unit vector.
\<close>

theorem normalized_defensive:
  "normalized_divisor vx vy \<noteq> 0
   \<and> normalized 0 0 = (0, 0)
   \<and> ((vx, vy) \<noteq> (0, 0) \<longrightarrow>
        hypot (fst (normalized vx vy)) (snd (normalized vx vy)) = 1)"
proof (intro conjI impI)
  show "normalized_divisor vx vy \<noteq> 0"
    by (simp add: normalized_divisor_def)
  show "normalized 0 0 = (0, 0)"
    by (simp add: normalized_def)
next
  assume nz: "(vx, vy) \<noteq> (0, 0)"
  then have h: "hypot vx vy \<noteq> 0" by (simp add: hypot_eq_0_iff)
  with hypot_nonneg [of vx vy] have pos: "0 < hypot vx vy" by simp
  have "normalized vx vy = (vx / hypot vx vy, vy / hypot vx vy)"
    using h by (simp add: normalized_def normalized_divisor_def Let_def)
  then show "hypot (fst (normalized vx vy)) (snd (normalized vx vy)) = 1"
    using hypot_scale [OF pos, of vx vy] h by simp
qed

theorem normalized_defensive_witness:
  "((3::real), (4::real)) \<noteq> (0, 0)
   \<and> hypot (fst (normalized 3 4)) (snd (normalized 3 4)) = 1"
  using normalized_defensive [of 3 4] by simp

text \<open>
  C10 (as stated) fails: for the zero vector the helper returns \<open>(0, 0)\<close>, whose length
  is 0, not a unit vector such as \<open>(0, 1)\<close>.
\<close>

theorem normalized_zero_not_unit:
  "normalized 0 0 = (0, 0)
   \<and> hypot (fst (normalized 0 0)) (snd (normalized 0 0)) \<noteq> 1"
  by (simp add: normalized_def hypot_def)

text \<open>
  C7. With \<open>g = growthRateInput / 15000\<close> and \<open>prob = 1 - (1 - g)^n\<close>: for
  \<open>growthRateInput = 0\<close> the probability is 0 for every neighbour count; for a fixed
  \<open>growthRateInput\<close> strictly between 0 and 15000 (so that \<open>g\<close> is a probability below 1)
  it is strictly increasing in the neighbour count and lies in \<open>[0, 1)\<close>.
\<close>

theorem growth_prob_bounds:
  "growth_prob 0 n = 0
   \<and> (0 < rate \<and> rate < 15000 \<longrightarrow>
        (\<forall>m. m < n \<longrightarrow> growth_prob rate m < growth_prob rate n)
        \<and> 0 \<le> growth_prob rate n \<and> growth_prob rate n < 1)"
proof (intro conjI impI allI)
  show "growth_prob 0 n = 0"
    by (simp add: growth_prob_def)
next
  fix m
  assume r: "0 < rate \<and> rate < 15000" and mn: "m < n"
  let ?q = "1 - rate / 15000"
  from r have q: "0 < ?q" "?q < 1" by simp_all
  from mn q have "?q ^ n < ?q ^ m"
    by (rule power_strict_decreasing)
  then show "growth_prob rate m < growth_prob rate n"
    by (simp add: growth_prob_def)
next
  assume r: "0 < rate \<and> rate < 15000"
  let ?q = "1 - rate / 15000"
  from r have q: "0 < ?q" "?q < 1" by simp_all
  then have "?q ^ n \<le> 1" by (simp add: power_le_one)
  then show "0 \<le> growth_prob rate n"
    by (simp add: growth_prob_def)
next
  assume r: "0 < rate \<and> rate < 15000"
  let ?q = "1 - rate / 15000"
  from r have q: "0 < ?q" by simp
  then have "0 < ?q ^ n" by simp
  then show "growth_prob rate n < 1"
    by (simp add: growth_prob_def)
qed

theorem growth_prob_bounds_witness:
  "(0::real) < 100 \<and> (100::real) < 15000 \<and> (1::nat) < 2
   \<and> growth_prob 100 1 < growth_prob 100 2
   \<and> 0 \<le> growth_prob 100 2 \<and> growth_prob 100 2 < 1"
  using growth_prob_bounds [of 2 100] by simp

section \<open>Properties of the growth pass\<close>

lemma growth_apply_length: "length (fst (growth_apply ms cs r)) = length cs"
  by (induction ms cs r rule: growth_apply.induct) (auto simp: Let_def split: prod.splits)

lemma growth_apply_keeps_tumor:
  "i < length cs \<Longrightarrow> cstate (cs ! i) = Tumor \<Longrightarrow> fst (growth_apply ms cs r) ! i = cs ! i"
proof (induction ms cs r arbitrary: i rule: growth_apply.induct)
  case (1 m ms c cs r)
  then show ?case
    by (cases i) (auto simp: Let_def split: prod.splits)
qed simp_all

lemma growth_pass_length: "length (fst (growth_pass g ctl cs r)) = length cs"
  by (simp add: growth_pass_def growth_apply_length split: prod.splits)

lemma growth_pass_keeps_tumor:
  "i < length cs \<Longrightarrow> cstate (cs ! i) = Tumor \<Longrightarrow> fst (growth_pass g ctl cs r) ! i = cs ! i"
  by (simp add: growth_pass_def growth_apply_keeps_tumor split: prod.splits)

text \<open>
  C6. The growth pass alone is monotone: a site that is Tumor before the pass is Tumor
  after it (it is left as it was), for every generator, every geometry and every slider
  value; the grid keeps its length.
\<close>

theorem growth_monotone:
  "length (fst (growth_pass g ctl cs r)) = length cs
   \<and> (\<forall>i < length cs. cstate (cs ! i) = Tumor \<longrightarrow>
         cstate (fst (growth_pass g ctl cs r) ! i) = Tumor)"
  by (simp add: growth_pass_length growth_pass_keeps_tumor)

section \<open>The cap on the number of particles\<close>

lemma particle_loop_unfold:
  "i < length (particles s) \<Longrightarrow>
     particle_loop g ctl s i = particle_loop g ctl (particle_iter g ctl s i) (Suc i)"
  by (subst particle_loop.simps) simp

lemma particle_loop_done:
  "\<not> i < length (particles s) \<Longrightarrow> particle_loop g ctl s i = s"
  by (subst particle_loop.simps) simp

lemma length_particle_loop:
  "length (particles (particle_loop g ctl s i)) \<le> max MAX_PARTICLES (length (particles s))"
proof (induction g ctl s i rule: particle_loop.induct)
  case (1 g ctl s i)
  show ?case
  proof (cases "i < length (particles s)")
    case True
    with 1 have "length (particles (particle_loop g ctl (particle_iter g ctl s i) (Suc i)))
        \<le> max MAX_PARTICLES (length (particles (particle_iter g ctl s i)))"
      by simp
    with length_particle_iter [of g ctl s i] True show ?thesis
      by (simp add: particle_loop_unfold del: max.bounded_iff)
  next
    case False
    then show ?thesis by (simp add: particle_loop_done)
  qed
qed

lemma append_spawned_admits:
  "particles (append_spawned t)
     = particles t @ take (MAX_PARTICLES - length (particles t)) (spawned t)"
  by (simp add: append_spawned_def Let_def)

text \<open>
  C8 (as the code has it). After a tick the array of particles is never longer than the
  larger of 1200 and its length when the tick began, for every generator and every input;
  and each appending of spawned particles admits exactly the first \<open>1200 - length\<close> of them
  (all of them if they fit, none if the array is already at or above the cap), so that the
  array is then no longer than the larger of 1200 and its length before.
\<close>

theorem particle_cap:
  "length (particles (stepSimulation g ctl s)) \<le> max 1200 (length (particles s))
   \<and> particles (append_spawned t)
       = particles t @ take (1200 - length (particles t)) (spawned t)
   \<and> length (particles (append_spawned t)) \<le> max 1200 (length (particles t))"
proof (intro conjI)
  obtain cs r where gp: "growth_pass g ctl (cells s) (random s) = (cs, r)"
    by (cases "growth_pass g ctl (cells s) (random s)")
  show "length (particles (stepSimulation g ctl s)) \<le> max 1200 (length (particles s))"
    using length_particle_loop [of g ctl "s\<lparr>cells := cs, random := r, spawned := []\<rparr>" 0]
    by (simp add: stepSimulation_def gp MAX_PARTICLES_def del: max.bounded_iff)
  show "particles (append_spawned t)
       = particles t @ take (1200 - length (particles t)) (spawned t)"
    using append_spawned_admits [of t] by (simp only: MAX_PARTICLES_def)
  show "length (particles (append_spawned t)) \<le> max 1200 (length (particles t))"
    using length_append_spawned [of t] by (simp add: MAX_PARTICLES_def del: max.bounded_iff)
qed

subsection \<open>A tick that begins above the cap\<close>

lemma transport_flowing:
  assumes "flowing g p"
  shows "\<not> dead (transport g ctl cs (age_particle p))"
    and "\<not> leached (transport g ctl cs (age_particle p))"
    and "\<not> expired (age_particle p)"
  using assms
  by (auto simp: flowing_def transport_def age_particle_def expired_def steer_cytotoxic_def
      steer_compound_def move_def vessel_step_def Let_def split: option.splits prod.splits)

lemma particle_iter_flowing:
  assumes i: "i < length (particles s)"
    and sp: "spawned s = []"
    and fl: "flowing g (heap s (particles s ! i))"
    and alive: "\<forall>a \<in> set (particles s). \<not> dead (heap s a)"
  shows "particle_iter g ctl s i
           = upd_part (particles s ! i) (\<lambda>p. transport g ctl (cells s) (age_particle p)) s"
proof -
  let ?a = "particles s ! i"
  let ?q = "transport g ctl (cells s) (age_particle (heap s ?a))"
  let ?s2 = "upd_part ?a (\<lambda>p. transport g ctl (cells s) (age_particle p)) s"
  have s2: "upd_part ?a (transport g ctl (cells (upd_part ?a age_particle s)))
              (upd_part ?a age_particle s) = ?s2"
    by (simp add: upd_part_def)
  have q: "heap ?s2 ?a = ?q" by (simp add: upd_part_def)
  have int: "interact g ?a ?s2 = ?s2"
    using transport_flowing(2) [OF fl] q by (simp add: interact_def)
  have app: "append_spawned ?s2 = ?s2"
    using sp by (simp add: append_spawned_def upd_part_def)
  have "\<not> dead (heap ?s2 a)" if "a \<in> set (particles s)" for a
    using that alive transport_flowing(1) [OF fl] by (simp add: upd_part_def)
  then have "filter (\<lambda>a. \<not> dead (heap ?s2 a)) (particles ?s2) = particles ?s2"
    by (simp add: filter_id_conv)
  then have pur: "purge_dead ?s2 = ?s2"
    by (simp add: purge_dead_def)
  have "\<not> expired (heap (upd_part ?a age_particle s) ?a)"
    using transport_flowing(3) [OF fl] by (simp add: upd_part_def)
  then show ?thesis
    by (simp add: particle_iter_def Let_def s2 int app pur)
qed

lemma particle_loop_flowing:
  assumes "spawned s = []"
    and "distinct (particles s)"
    and "\<forall>j < length (particles s). i \<le> j \<longrightarrow> flowing g (heap s (particles s ! j))"
    and "\<forall>a \<in> set (particles s). \<not> dead (heap s a)"
  shows "particles (particle_loop g ctl s i) = particles s"
  using assms
proof (induction g ctl s i rule: particle_loop.induct)
  case (1 g ctl s i)
  show ?case
  proof (cases "i < length (particles s)")
    case False
    then show ?thesis by (simp add: particle_loop_done)
  next
    case True
    let ?a = "particles s ! i"
    let ?s' = "upd_part ?a (\<lambda>p. transport g ctl (cells s) (age_particle p)) s"
    from True "1.prems" have fl: "flowing g (heap s ?a)" by simp
    have it: "particle_iter g ctl s i = ?s'"
      using particle_iter_flowing [OF True "1.prems"(1) fl "1.prems"(4)] .
    have a1: "spawned ?s' = []" using "1.prems"(1) by (simp add: upd_part_def)
    have a2: "distinct (particles ?s')" using "1.prems"(2) by simp
    have a3: "\<forall>j < length (particles ?s'). Suc i \<le> j \<longrightarrow> flowing g (heap ?s' (particles ?s' ! j))"
    proof (intro allI impI)
      fix j assume j: "j < length (particles ?s')" "Suc i \<le> j"
      then have "particles s ! j \<noteq> ?a"
        using "1.prems"(2) True by (simp add: nth_eq_iff_index_eq)
      then show "flowing g (heap ?s' (particles ?s' ! j))"
        using "1.prems"(3) j by (simp add: upd_part_def)
    qed
    have a4: "\<forall>a \<in> set (particles ?s'). \<not> dead (heap ?s' a)"
      using "1.prems"(4) transport_flowing(1) [OF fl] by (simp add: upd_part_def)
    have "particles (particle_loop g ctl ?s' (Suc i)) = particles ?s'"
      using "1.IH" [OF True] a1 a2 a3 a4 by (simp add: it)
    then show ?thesis
      using True by (simp add: particle_loop_unfold it)
  qed
qed

lemma vesselBoundaryX_le:
  "vesselBoundaryX g y \<le> vesselX g + vessel_slope * y + vessel_amplitude"
  using sin_le_one [of "vessel_freq * y + phase g"]
  by (simp add: vesselBoundaryX_def vessel_amplitude_def)

lemma vesselBoundaryX_ge:
  "vesselX g + vessel_slope * y - vessel_amplitude \<le> vesselBoundaryX g y"
  using sin_ge_minus_one [of "vessel_freq * y + phase g"]
  by (simp add: vesselBoundaryX_def vessel_amplitude_def)

lemma flowing_ex_wanderer: "flowing ex_geometry ex_wanderer"
  using vesselBoundaryX_le [of ex_geometry 100]
  by (simp add: flowing_def ex_wanderer_def ex_geometry_def vesselX_def vessel_slope_def
      vessel_amplitude_def)

lemma alive_ex_wanderer: "\<not> dead ex_wanderer"
  by (simp add: ex_wanderer_def)

text \<open>
  C8 (as stated) fails: a tick that begins with 1201 live compounds in the vessel (the
  dosing function has no cap) ends with 1201 particles.
\<close>

theorem particle_cap_exceeded:
  "length (particles ex_crowded) = 1201
   \<and> length (particles (stepSimulation ex_geometry ex_controls ex_crowded)) = 1201"
proof -
  obtain cs r where gp:
    "growth_pass ex_geometry ex_controls (cells ex_crowded) (random ex_crowded) = (cs, r)"
    by (cases "growth_pass ex_geometry ex_controls (cells ex_crowded) (random ex_crowded)")
  let ?s = "ex_crowded\<lparr>cells := cs, random := r, spawned := []\<rparr>"
  have "particles (particle_loop ex_geometry ex_controls ?s 0) = particles ?s"
    by (rule particle_loop_flowing)
       (simp_all add: ex_crowded_def flowing_ex_wanderer alive_ex_wanderer)
  then show ?thesis
    by (simp add: stepSimulation_def gp) (simp add: ex_crowded_def)
qed

section \<open>The particle loop at work\<close>

lemma fields_step_rng [simp]:
  "heap (step_rng s) = heap s" "fresh (step_rng s) = fresh s"
  "spawned (step_rng s) = spawned s" "cells (step_rng s) = cells s"
  by (simp_all add: step_rng_def)

lemma fields_kill_site [simp]:
  "heap (kill_site i s) = heap s" "fresh (kill_site i s) = fresh s"
  "spawned (kill_site i s) = spawned s" "random (kill_site i s) = random s"
  "cells (kill_site i s) = kill i (cells s)"
  by (simp_all add: kill_site_def)

lemma fields_upd_part [simp]:
  "fresh (upd_part a f s) = fresh s" "spawned (upd_part a f s) = spawned s"
  "cells (upd_part a f s) = cells s" "random (upd_part a f s) = random s"
  "heap (upd_part a f s) b = (if b = a then f (heap s a) else heap s b)"
  by (simp_all add: upd_part_def)

lemma fields_cascade_kill [simp]:
  "heap (cascade_kill g i s) = heap s" "fresh (cascade_kill g i s) = fresh s"
  "spawned (cascade_kill g i s) = spawned s"
  by (simp_all add: cascade_kill_def Let_def)

lemma fields_push_spawned [simp]:
  "fresh (push_spawned p s) = Suc (fresh s)"
  "spawned (push_spawned p s) = spawned s @ [fresh s]"
  "cells (push_spawned p s) = cells s" "random (push_spawned p s) = random s"
  "heap (push_spawned p s) b = (if b = fresh s then p else heap s b)"
  by (simp_all add: push_spawned_def)

lemma newborn_made [simp]:
  "newborn (idle_cytotoxic x y c)" "newborn (seeking_cytotoxic rx ry sp t ti c)"
  by (simp_all add: newborn_def idle_cytotoxic_def seeking_cytotoxic_def split: prod.splits)

lemma split_one_facts:
  "fresh (split_one g c nt k s) = Suc (fresh s)"
  "spawned (split_one g c nt k s) = spawned s @ [fresh s]"
  "b = fresh s \<Longrightarrow> newborn (heap (split_one g c nt k s) b)"
  "b \<noteq> fresh s \<Longrightarrow> heap (split_one g c nt k s) b = heap s b"
  by (simp_all add: split_one_def Let_def split: option.splits)

lemma compound_contact_spawns:
  assumes "contact_scan (cells s) 0 (px (heap s a)) (py (heap s a)) 9 \<noteq> None"
    and "a < fresh s"
  shows "fresh (compound_contact g a s) = Suc (Suc (Suc (Suc (fresh s))))"
    and "spawned (compound_contact g a s)
           = spawned s @ [fresh s, Suc (fresh s), Suc (Suc (fresh s)), Suc (Suc (Suc (fresh s)))]"
    and "dead (heap (compound_contact g a s) a)"
    and "ptype (heap (compound_contact g a s) a) = ptype (heap s a)"
    and "newborn (heap (compound_contact g a s) (fresh s))"
    and "newborn (heap (compound_contact g a s) (Suc (fresh s)))"
    and "newborn (heap (compound_contact g a s) (Suc (Suc (fresh s))))"
    and "newborn (heap (compound_contact g a s) (Suc (Suc (Suc (fresh s)))))"
  using assms
  by (auto simp: compound_contact_def Let_def split_one_facts split: option.splits)

lemma steer_toward_keeps [simp]:
  "ptype (steer_toward t sp p) = ptype p" "dead (steer_toward t sp p) = dead p"
  "ttl (steer_toward t sp p) = ttl p" "wander (steer_toward t sp p) = wander p"
  "leached (steer_toward t sp p) = leached p"
  by (simp_all add: steer_toward_def split: prod.splits)

lemma go_idle_keeps [simp]:
  "ptype (go_idle p) = ptype p" "dead (go_idle p) = dead p"
  "ttl (go_idle p) = ttl p" "wander (go_idle p) = wander p" "leached (go_idle p) = leached p"
  by (simp_all add: go_idle_def)

lemma push_perpendicular_keeps [simp]:
  "ptype (push_perpendicular g sp p) = ptype p" "dead (push_perpendicular g sp p) = dead p"
  "ttl (push_perpendicular g sp p) = ttl p" "wander (push_perpendicular g sp p) = wander p"
  by (simp_all add: push_perpendicular_def Let_def split: prod.splits)

lemma steer_cytotoxic_keeps [simp]:
  "ptype (steer_cytotoxic ctl cs p) = ptype p" "dead (steer_cytotoxic ctl cs p) = dead p"
  "ttl (steer_cytotoxic ctl cs p) = ttl p" "wander (steer_cytotoxic ctl cs p) = wander p"
  "leached (steer_cytotoxic ctl cs p) = leached p"
  by (simp_all add: steer_cytotoxic_def split: option.splits)

lemma steer_compound_keeps [simp]:
  "ptype (steer_compound ctl cs p) = ptype p" "dead (steer_compound ctl cs p) = dead p"
  "ttl (steer_compound ctl cs p) = ttl p" "wander (steer_compound ctl cs p) = wander p"
  "leached (steer_compound ctl cs p) = leached p"
  by (simp_all add: steer_compound_def split: option.splits)

lemma move_keeps [simp]:
  "ptype (move p) = ptype p" "dead (move p) = dead p"
  "ttl (move p) = ttl p" "wander (move p) = wander p" "leached (move p) = leached p"
  by (simp_all add: move_def)

lemma vessel_step_keeps [simp]:
  "ptype (vessel_step g ctl cs p) = ptype p" "dead (vessel_step g ctl cs p) = dead p"
  "ttl (vessel_step g ctl cs p) = ttl p" "wander (vessel_step g ctl cs p) = wander p"
  "leached p \<Longrightarrow> vessel_step g ctl cs p = p"
  by (simp_all add: vessel_step_def Let_def split: option.splits prod.splits)

lemma transport_keeps [simp]:
  "ptype (transport g ctl cs p) = ptype p"
  "dead (transport g ctl cs p) = dead p"
  "ttl (transport g ctl cs p) = ttl p"
  "wander (transport g ctl cs p) = wander p"
  "leached p \<Longrightarrow> leached (transport g ctl cs p)"
  by (simp_all add: transport_def)

lemma age_keeps [simp]:
  "ptype (age_particle p) = ptype p" "dead (age_particle p) = dead p"
  "wander (age_particle p) = wander p"
  by (simp_all add: age_particle_def)

lemma round_cytotoxic:
  assumes "ptype (heap t (particles t ! i)) = Cytotoxic"
    and "\<not> expired (age_particle (heap t (particles t ! i)))"
  shows "particle_iter g ctl t i
           = purge_dead (append_spawned
               (upd_part (particles t ! i) (\<lambda>p. transport g ctl (cells t) (age_particle p)) t))"
proof -
  let ?a = "particles t ! i"
  let ?t2 = "upd_part ?a (\<lambda>p. transport g ctl (cells t) (age_particle p)) t"
  have t2: "upd_part ?a (transport g ctl (cells t)) (upd_part ?a age_particle t) = ?t2"
    by (simp add: upd_part_def)
  have "interact g ?a ?t2 = ?t2"
    using assms(1) by (simp add: interact_def)
  then show ?thesis
    using assms(2) by (simp add: particle_iter_def Let_def t2)
qed

lemma tick_single_cytotoxic:
  assumes ps: "particles s = [a]"
    and ty: "ptype (heap s a) = Cytotoxic"
    and al: "\<not> dead (heap s a)"
    and ex: "\<not> expired (age_particle (heap s a))"
    and gp: "growth_pass g ctl (cells s) (random s) = (cs, r)"
  shows "stepSimulation g ctl s
           = upd_part a (\<lambda>p. transport g ctl cs (age_particle p))
               (s\<lparr>cells := cs, random := r, spawned := []\<rparr>)"
proof -
  let ?s1 = "s\<lparr>cells := cs, random := r, spawned := []\<rparr>"
  let ?t = "upd_part a (\<lambda>p. transport g ctl cs (age_particle p)) ?s1"
  have "particle_iter g ctl ?s1 0 = purge_dead (append_spawned ?t)"
    using round_cytotoxic [of ?s1 0 g ctl] ps ty ex by simp
  moreover have "append_spawned ?t = ?t"
    by (simp add: append_spawned_def upd_part_def MAX_PARTICLES_def ps)
  moreover have "filter (\<lambda>b. \<not> dead (heap ?t b)) (particles ?t) = particles ?t"
    using al by (simp add: ps)
  then have "purge_dead ?t = ?t"
    by (simp add: purge_dead_def)
  ultimately have it: "particle_iter g ctl ?s1 0 = ?t" by simp
  have "particle_loop g ctl ?s1 0 = particle_loop g ctl ?t (Suc 0)"
    using particle_loop_unfold [of 0 ?s1 g ctl] by (simp add: ps it)
  also have "\<dots> = ?t"
    by (rule particle_loop_done) (simp add: ps)
  finally show ?thesis
    by (simp add: stepSimulation_def gp)
qed

lemma fields_wander_decay [simp]:
  "fresh (wander_decay a s) = fresh s" "spawned (wander_decay a s) = spawned s"
  "cells (wander_decay a s) = cells s"
  "b \<noteq> a \<Longrightarrow> heap (wander_decay a s) b = heap s b"
  "dead (heap s a) \<Longrightarrow> dead (heap (wander_decay a s) a)"
  by (simp_all add: wander_decay_def)

lemma fields_off_canvas [simp]:
  "fresh (off_canvas g a s) = fresh s" "spawned (off_canvas g a s) = spawned s"
  "cells (off_canvas g a s) = cells s"
  "b \<noteq> a \<Longrightarrow> heap (off_canvas g a s) b = heap s b"
  "dead (heap s a) \<Longrightarrow> dead (heap (off_canvas g a s) a)"
  by (simp_all add: off_canvas_def Let_def)

lemma contact_round:
  assumes ps: "particles s = [a]"
    and sp: "spawned s = []"
    and a: "a < fresh s"
    and ty: "ptype (heap s a) = Compound"
    and ex: "\<not> expired (age_particle (heap s a))"
    and le: "leached (transport g ctl (cells s) (age_particle (heap s a)))"
    and hit: "contact_scan (cells s) 0
                (px (transport g ctl (cells s) (age_particle (heap s a))))
                (py (transport g ctl (cells s) (age_particle (heap s a)))) 9 \<noteq> None"
  shows "particles (particle_iter g ctl s 0)
           = [fresh s, Suc (fresh s), Suc (Suc (fresh s)), Suc (Suc (Suc (fresh s)))]"
    and "spawned (particle_iter g ctl s 0)
           = [fresh s, Suc (fresh s), Suc (Suc (fresh s)), Suc (Suc (Suc (fresh s)))]"
    and "\<forall>b \<in> set (spawned (particle_iter g ctl s 0)). newborn (heap (particle_iter g ctl s 0) b)"
proof -
  let ?s2 = "upd_part a (\<lambda>p. transport g ctl (cells s) (age_particle p)) s"
  let ?s3 = "compound_contact g a ?s2"
  let ?s5 = "off_canvas g a (wander_decay a ?s3)"
  let ?new = "[fresh s, Suc (fresh s), Suc (Suc (fresh s)), Suc (Suc (Suc (fresh s)))]"
  have s2: "upd_part a (transport g ctl (cells s)) (upd_part a age_particle s) = ?s2"
    by (simp add: upd_part_def)
  have hit2: "contact_scan (cells ?s2) 0 (px (heap ?s2 a)) (py (heap ?s2 a)) 9 \<noteq> None"
    using hit by simp
  have a2: "a < fresh ?s2" using a by simp
  note cc = compound_contact_spawns [OF hit2 a2, of g]
  have int: "interact g a ?s2 = ?s5"
    using ty le cc(4) by (simp add: interact_def Let_def)
  have it: "particle_iter g ctl s 0 = purge_dead (append_spawned ?s5)"
    using ex ps by (simp add: particle_iter_def Let_def s2 int)
  have sp3: "spawned ?s3 = ?new" using cc(2) sp by simp
  have ps3: "particles ?s3 = [a]" using ps by simp
  have dead3: "dead (heap ?s3 a)" using cc(3) .
  have new3: "\<forall>b \<in> set ?new. newborn (heap ?s3 b)"
    using cc(5-8) by simp
  have ne: "\<forall>b \<in> set ?new. b \<noteq> a" using a by auto
  have heap5: "\<forall>b \<in> set ?new. heap ?s5 b = heap ?s3 b"
    using ne by simp
  have new5: "\<forall>b \<in> set ?new. newborn (heap ?s5 b)"
    using new3 heap5 by simp
  have dead5: "dead (heap ?s5 a)" using dead3 by simp
  have sp5: "spawned ?s5 = ?new" using sp3 by simp
  have ps5: "particles ?s5 = [a]" using ps3 by simp
  have "particles (append_spawned ?s5) = particles ?s5 @ spawned ?s5"
    by (simp only: append_spawned_def ps5 sp5) (simp add: MAX_PARTICLES_def)
  then have app: "particles (append_spawned ?s5) = a # ?new"
    by (simp only: ps5 sp5) simp
  have heap_app: "heap (append_spawned ?s5) = heap ?s5"
    "spawned (append_spawned ?s5) = spawned ?s5"
    by (simp_all add: append_spawned_def Let_def)
  have "filter (\<lambda>b. \<not> dead (heap ?s5 b)) (a # ?new) = ?new"
    using dead5 new5 by (simp add: newborn_def)
  then have pur: "particles (purge_dead (append_spawned ?s5)) = ?new"
    by (simp only: purge_dead_def app heap_app) simp
  have rest: "heap (purge_dead (append_spawned ?s5)) = heap ?s5"
    "spawned (purge_dead (append_spawned ?s5)) = spawned ?s5"
    by (simp_all add: purge_dead_def heap_app)
  show "particles (particle_iter g ctl s 0) = ?new"
    by (simp only: it pur)
  show "spawned (particle_iter g ctl s 0) = ?new"
    by (simp only: it rest sp5)
  show "\<forall>b \<in> set (spawned (particle_iter g ctl s 0)). newborn (heap (particle_iter g ctl s 0) b)"
    using new5 by (simp only: it rest sp5)
qed

lemma respawn_round:
  assumes ps: "particles t = [f, f1, f2, f3]"
    and sp: "spawned t = [f, f1, f2, f3]"
    and new: "\<forall>b \<in> set (spawned t). newborn (heap t b)"
  shows "particles (particle_iter g ctl t (Suc 0)) = [f, f1, f2, f3, f, f1, f2, f3]"
    and "heap (particle_iter g ctl t (Suc 0)) f1
           = transport g ctl (cells t) (age_particle (heap t f1))"
proof -
  let ?t2 = "upd_part f1 (\<lambda>p. transport g ctl (cells t) (age_particle p)) t"
  have nb: "newborn (heap t f)" "newborn (heap t f1)" "newborn (heap t f2)" "newborn (heap t f3)"
    using new by (simp_all add: sp)
  have a: "particles t ! Suc 0 = f1" by (simp add: ps)
  have ty: "ptype (heap t (particles t ! Suc 0)) = Cytotoxic"
    using nb(2) by (simp only: a) (simp add: newborn_def)
  have ex: "\<not> expired (age_particle (heap t (particles t ! Suc 0)))"
    using nb(2) by (simp only: a) (auto simp: newborn_def expired_def age_particle_def)
  have it: "particle_iter g ctl t (Suc 0) = purge_dead (append_spawned ?t2)"
    using round_cytotoxic [OF ty ex, of g ctl] by (simp only: a)
  have ps2: "particles ?t2 = [f, f1, f2, f3]" "spawned ?t2 = [f, f1, f2, f3]"
    by (simp_all add: ps sp)
  have "particles (append_spawned ?t2) = particles ?t2 @ spawned ?t2"
    by (simp only: append_spawned_def ps2) (simp add: MAX_PARTICLES_def)
  then have app: "particles (append_spawned ?t2) = [f, f1, f2, f3, f, f1, f2, f3]"
    by (simp only: ps2) simp
  have heap_app: "heap (append_spawned ?t2) = heap ?t2"
    by (simp add: append_spawned_def Let_def)
  have "filter (\<lambda>b. \<not> dead (heap ?t2 b)) [f, f1, f2, f3, f, f1, f2, f3]
          = [f, f1, f2, f3, f, f1, f2, f3]"
    using nb by (simp add: newborn_def)
  then show "particles (particle_iter g ctl t (Suc 0)) = [f, f1, f2, f3, f, f1, f2, f3]"
    by (simp only: it purge_dead_def app heap_app) simp
  show "heap (particle_iter g ctl t (Suc 0)) f1
           = transport g ctl (cells t) (age_particle (heap t f1))"
    by (simp add: it purge_dead_def heap_app)
qed

lemma contact_scan_hit:
  "k < length cs \<Longrightarrow> cstate (cs ! k) = Tumor
     \<Longrightarrow> hypot (cx (cs ! k) - x) (cy (cs ! k) - y) \<le> csize (cs ! k) + m
     \<Longrightarrow> contact_scan cs ci x y m \<noteq> None"
proof (induction cs arbitrary: k ci)
  case Nil
  then show ?case by simp
next
  case (Cons c cs)
  then show ?case by (cases k) auto
qed

lemma concat_rows:
  "concat (map (\<lambda>iy. map (\<lambda>ix. F ix iy) [0 ..< n]) [0 ..< m])
     = map (\<lambda>k. F (k mod n) (k div n)) [0 ..< m * n]"
proof (induction m)
  case 0
  then show ?case by simp
next
  case (Suc m)
  have "[0 ..< m * n + n] = [0 ..< m * n] @ [m * n ..< m * n + n]"
    by (rule upt_add_eq_append) simp
  moreover have "[m * n ..< m * n + n] = map (\<lambda>i. i + m * n) [0 ..< n]"
    by (simp only: map_add_upt add.commute [of n])
  moreover have "Suc m * n = m * n + n" by simp
  ultimately have "[0 ..< Suc m * n] = [0 ..< m * n] @ map (\<lambda>i. i + m * n) [0 ..< n]"
    by (simp only:)
  then have "map (\<lambda>k. F (k mod n) (k div n)) [0 ..< Suc m * n]
      = map (\<lambda>k. F (k mod n) (k div n)) [0 ..< m * n]
        @ map (\<lambda>i. F ((i + m * n) mod n) ((i + m * n) div n)) [0 ..< n]"
    by (simp only: map_append map_map comp_def)
  moreover have "map (\<lambda>i. F ((i + m * n) mod n) ((i + m * n) div n)) [0 ..< n]
      = map (\<lambda>ix. F ix m) [0 ..< n]"
    by (rule map_cong) simp_all
  moreover have "concat (map (\<lambda>iy. map (\<lambda>ix. F ix iy) [0 ..< n]) [0 ..< Suc m])
      = concat (map (\<lambda>iy. map (\<lambda>ix. F ix iy) [0 ..< n]) [0 ..< m]) @ map (\<lambda>ix. F ix m) [0 ..< n]"
    by simp
  ultimately show ?case
    using Suc by (simp only:)
qed

lemma initCells_flat:
  "initCells g = map (\<lambda>k.
       \<lparr>cx = spacing / 2 + of_nat (k mod nat (cols g)) * spacing,
        cy = spacing / 2 + of_nat (k div nat (cols g)) * spacing,
        cstate = Healthy, csize = 0\<rparr>) [0 ..< nat (rows g) * nat (cols g)]"
  unfolding initCells_def by (rule concat_rows)

lemma length_initCells: "length (initCells g) = nat (rows g) * nat (cols g)"
  by (simp add: initCells_flat)

lemma initCells_healthy: "c \<in> set (initCells g) \<Longrightarrow> cstate c = Healthy"
  by (auto simp: initCells_flat)

lemma ex_geometry_grid: "cols ex_geometry = 50" "rows ex_geometry = 28"
  by (simp_all add: cols_def rows_def ex_geometry_def spacing_def)

lemma length_ex_tumor_grid: "length ex_tumor_grid = 1400"
  by (simp add: ex_tumor_grid_def length_initCells ex_geometry_grid)

lemma ex_tumor_grid_720:
  "ex_tumor_grid ! 720 = \<lparr>cx = 369, cy = 261, cstate = Tumor, csize = 12\<rparr>"
  by (simp add: ex_tumor_grid_def length_initCells ex_geometry_grid)
     (simp add: initCells_flat ex_geometry_grid spacing_def)

lemma hypot_x0 [simp]: "hypot a 0 = \<bar>a\<bar>"
  by (simp add: hypot_def)

lemma growth_mark_no_tumor:
  assumes "\<forall>c \<in> set cs. cstate c = Healthy" and "i < length cs"
  shows "growth_mark g ctl cs i r = (False, r)"
proof -
  have "\<not> tumor_at_index cs n" for n
    using assms(1) by (auto simp: tumor_at_index_def tumor_at_def)
  then have "neighborsCount g cs i = 0"
    by (simp add: neighborsCount_def)
  moreover have "cstate (cs ! i) = Healthy"
    using assms by simp
  ultimately show ?thesis
    by (simp add: growth_mark_def Let_def)
qed

lemma growth_marks_no_tumor:
  assumes "\<forall>c \<in> set cs. cstate c = Healthy" and "\<forall>i \<in> set is. i < length cs"
  shows "growth_marks g ctl cs is r = (replicate (length is) False, r)"
  using assms(2)
  by (induction "is") (simp_all add: growth_mark_no_tumor [OF assms(1)])

lemma growth_apply_unmarked: "growth_apply (replicate n False) cs r = (cs, r)"
proof (induction n arbitrary: cs)
  case 0
  then show ?case by simp
next
  case (Suc n)
  then show ?case by (cases cs) simp_all
qed

lemma growth_pass_no_tumor:
  assumes "\<forall>c \<in> set cs. cstate c = Healthy"
  shows "growth_pass g ctl cs r = (cs, r)"
  using growth_marks_no_tumor [OF assms, of "[0 ..< length cs]" g ctl r]
  by (simp add: growth_pass_def growth_apply_unmarked)

text \<open>
  C1 at a failing input: a cytotoxic particle sits on its target, a tumor site of radius
  12. After the tick the target is still Tumor and the particle is alive and on it. And
  with a healthy target, the particle is not marked dead either.
\<close>

theorem cytotoxic_contact_skipped:
  "ptype (heap ex_targeted 0) = Cytotoxic \<and> targetIdx (heap ex_targeted 0) = Some 720
   \<and> tumor_at (cells ex_targeted) 720
   \<and> tumor_at (cells (stepSimulation ex_geometry ex_controls ex_targeted)) 720
   \<and> hypot (cx (cells (stepSimulation ex_geometry ex_controls ex_targeted) ! 720)
              - px (heap (stepSimulation ex_geometry ex_controls ex_targeted) 0))
            (cy (cells (stepSimulation ex_geometry ex_controls ex_targeted) ! 720)
              - py (heap (stepSimulation ex_geometry ex_controls ex_targeted) 0))
       \<le> csize (cells (stepSimulation ex_geometry ex_controls ex_targeted) ! 720) + 10
   \<and> \<not> dead (heap (stepSimulation ex_geometry ex_controls ex_targeted) 0)
   \<and> particles (stepSimulation ex_geometry ex_controls ex_targeted) = [0]
   \<and> \<not> tumor_at (cells (stepSimulation ex_geometry ex_controls ex_orphaned)) 720
   \<and> \<not> dead (heap (stepSimulation ex_geometry ex_controls ex_orphaned) 0)
   \<and> particles (stepSimulation ex_geometry ex_controls ex_orphaned) = [0]"
proof -
  obtain cs r where gp0:
    "growth_pass ex_geometry ex_controls ex_tumor_grid (\<lambda>n. unit_half) = (cs, r)"
    by (cases "growth_pass ex_geometry ex_controls ex_tumor_grid (\<lambda>n. unit_half)")
  have c0: "cells ex_targeted = ex_tumor_grid" "heap ex_targeted 0 = ex_seeker"
    "particles ex_targeted = [0]"
    by (simp_all add: ex_targeted_def)
  have gp: "growth_pass ex_geometry ex_controls (cells ex_targeted) (random ex_targeted) = (cs, r)"
    using gp0 by (simp add: ex_targeted_def)
  have len: "length cs = 1400"
    using growth_pass_length [of ex_geometry ex_controls ex_tumor_grid "\<lambda>n. unit_half"]
    by (simp add: gp0 length_ex_tumor_grid)
  have c720: "cs ! 720 = \<lparr>cx = 369, cy = 261, cstate = Tumor, csize = 12\<rparr>"
    using growth_pass_keeps_tumor [of 720 ex_tumor_grid ex_geometry ex_controls
        "\<lambda>n. unit_half"]
    by (simp add: gp0 length_ex_tumor_grid ex_tumor_grid_720)
  have step: "stepSimulation ex_geometry ex_controls ex_targeted
      = upd_part 0 (\<lambda>p. transport ex_geometry ex_controls cs (age_particle p))
          (ex_targeted\<lparr>cells := cs, random := r, spawned := []\<rparr>)"
    by (rule tick_single_cytotoxic [OF _ _ _ _ gp])
       (simp_all add: c0 ex_seeker_def expired_def age_particle_def)
  have q: "transport ex_geometry ex_controls cs (age_particle ex_seeker)
      = ex_seeker\<lparr>ttl := Some 219\<rparr>"
    by (simp add: transport_def steer_cytotoxic_def steer_compound_def steer_toward_def
        move_def age_particle_def ex_seeker_def tumor_at_def len c720 normalized_def
        normalized_divisor_def)
  define cs' where "cs' = initCells ex_geometry"
  define r' where "r' = random ex_orphaned"
  have o0: "cells ex_orphaned = initCells ex_geometry" "heap ex_orphaned 0 = ex_seeker"
    "particles ex_orphaned = [0]"
    by (simp_all add: ex_orphaned_def)
  have gp': "growth_pass ex_geometry ex_controls (cells ex_orphaned) (random ex_orphaned)
      = (cs', r')"
    unfolding cs'_def r'_def o0 by (rule growth_pass_no_tumor) (simp add: initCells_healthy)
  have cs': "cs' = initCells ex_geometry" by (simp add: cs'_def)
  have step': "stepSimulation ex_geometry ex_controls ex_orphaned
      = upd_part 0 (\<lambda>p. transport ex_geometry ex_controls cs' (age_particle p))
          (ex_orphaned\<lparr>cells := cs', random := r', spawned := []\<rparr>)"
    by (rule tick_single_cytotoxic [OF _ _ _ _ gp'])
       (simp_all add: o0 ex_seeker_def expired_def age_particle_def)
  have healthy: "\<not> tumor_at (initCells ex_geometry) 720"
    using initCells_healthy [of "initCells ex_geometry ! 720" ex_geometry]
    by (auto simp: tumor_at_def)
  show ?thesis
    by (simp add: step step' c0 o0 q tumor_at_def len c720 length_ex_tumor_grid
        ex_tumor_grid_720 cs' healthy [unfolded tumor_at_def])
       (simp add: ex_seeker_def)
qed


theorem growth_monotone_witness:
  "720 < length ex_tumor_grid \<and> cstate (ex_tumor_grid ! 720) = Tumor
   \<and> cstate (fst (growth_pass ex_geometry ex_controls ex_tumor_grid (\<lambda>n. unit_half)) ! 720) = Tumor"
  using growth_monotone [of ex_geometry ex_controls ex_tumor_grid "\<lambda>n. unit_half"]
  by (simp add: length_ex_tumor_grid ex_tumor_grid_720)

lemma ex_contact_rounds:
  assumes gp: "growth_pass ex_geometry ex_controls ex_tumor_grid (\<lambda>n. unit_half) = (cs, r)"
  defines "s1 \<equiv> ex_contact\<lparr>cells := cs, random := r, spawned := []\<rparr>"
  defines "t1 \<equiv> particle_iter ex_geometry ex_controls s1 0"
  defines "t2 \<equiv> particle_iter ex_geometry ex_controls t1 (Suc 0)"
  shows "particles t1 = [1, 2, 3, 4]"
    and "spawned t1 = [1, 2, 3, 4]"
    and "\<forall>b \<in> set (spawned t1). newborn (heap t1 b)"
    and "particles t2 = [1, 2, 3, 4, 1, 2, 3, 4]"
    and "heap t2 2 = transport ex_geometry ex_controls (cells t1) (age_particle (heap t1 2))"
    and "stepSimulation ex_geometry ex_controls ex_contact
           = particle_loop ex_geometry ex_controls t2 2"
proof -
  have len: "length cs = 1400"
    using growth_pass_length [of ex_geometry ex_controls ex_tumor_grid "\<lambda>n. unit_half"]
    by (simp add: gp length_ex_tumor_grid)
  have c720: "cs ! 720 = \<lparr>cx = 369, cy = 261, cstate = Tumor, csize = 12\<rparr>"
    using growth_pass_keeps_tumor [of 720 ex_tumor_grid ex_geometry ex_controls
        "\<lambda>n. unit_half"]
    by (simp add: gp length_ex_tumor_grid ex_tumor_grid_720)
  have s1: "particles s1 = [0]" "spawned s1 = []" "fresh s1 = 1" "heap s1 0 = ex_compound"
    "cells s1 = cs"
    by (simp_all add: s1_def ex_contact_def)
  have q: "transport ex_geometry ex_controls cs (age_particle ex_compound)
      = ex_compound\<lparr>ttl := Some 299, px := 388.6\<rparr>"
    by (simp add: transport_def steer_cytotoxic_def steer_compound_def steer_toward_def
        move_def age_particle_def ex_compound_def tumor_at_def len c720 normalized_def
        normalized_divisor_def leech_speed_def leechSpeedBase_def ex_controls_def)
  have hit: "contact_scan cs 0 388.6 261 9 \<noteq> None"
    by (rule contact_scan_hit [of 720]) (simp_all add: len c720)
  note cr = contact_round [of s1 0 ex_geometry ex_controls]
  have pre: "particles s1 = [0]" "spawned s1 = []" "0 < fresh s1"
    "ptype (heap s1 0) = Compound" "\<not> expired (age_particle (heap s1 0))"
    "leached (transport ex_geometry ex_controls (cells s1) (age_particle (heap s1 0)))"
    "contact_scan (cells s1) 0
       (px (transport ex_geometry ex_controls (cells s1) (age_particle (heap s1 0))))
       (py (transport ex_geometry ex_controls (cells s1) (age_particle (heap s1 0)))) 9 \<noteq> None"
    using hit
    by (simp_all add: s1 q) (simp_all add: ex_compound_def expired_def age_particle_def)
  show p1: "particles t1 = [1, 2, 3, 4]"
    using cr(1) [OF pre] by (simp add: t1_def s1)
  show sp1: "spawned t1 = [1, 2, 3, 4]"
    using cr(2) [OF pre] by (simp add: t1_def s1)
  show new1: "\<forall>b \<in> set (spawned t1). newborn (heap t1 b)"
    using cr(3) [OF pre] by (simp add: t1_def)
  show p2: "particles t2 = [1, 2, 3, 4, 1, 2, 3, 4]"
    unfolding t2_def by (rule respawn_round(1) [OF p1 sp1 new1])
  show "heap t2 2 = transport ex_geometry ex_controls (cells t1) (age_particle (heap t1 2))"
    unfolding t2_def by (rule respawn_round(2) [OF p1 sp1 new1])
  have "stepSimulation ex_geometry ex_controls ex_contact
      = particle_loop ex_geometry ex_controls s1 0"
    by (simp add: stepSimulation_def s1_def ex_contact_def gp)
  also have "\<dots> = particle_loop ex_geometry ex_controls t1 (Suc 0)"
    unfolding t1_def by (rule particle_loop_unfold) (simp add: s1)
  also have "\<dots> = particle_loop ex_geometry ex_controls t2 (Suc (Suc 0))"
    unfolding t2_def by (rule particle_loop_unfold) (simp add: p1)
  finally show "stepSimulation ex_geometry ex_controls ex_contact
           = particle_loop ex_geometry ex_controls t2 2"
    by (simp add: numeral_2_eq_2)
qed

text \<open>
  C2 at a failing input: one leached compound touches the only tumor site. The round of the
  contact leaves the four new cytotoxic particles in \<^verbatim>\<open>particles\<close>; the next round of the
  same loop appends the same four again (eight entries), and the tick goes on from there.
\<close>

theorem split_appended_again:
  "(let (cs, r) = growth_pass ex_geometry ex_controls (cells ex_contact) (random ex_contact);
        s1 = ex_contact\<lparr>cells := cs, random := r, spawned := []\<rparr>;
        t1 = particle_iter ex_geometry ex_controls s1 0;
        t2 = particle_iter ex_geometry ex_controls t1 1
    in particles s1 = [0] \<and> particles t1 = [1, 2, 3, 4]
       \<and> particles t2 = [1, 2, 3, 4, 1, 2, 3, 4]
       \<and> stepSimulation ex_geometry ex_controls ex_contact
            = particle_loop ex_geometry ex_controls t2 2)"
proof -
  obtain cs r where gp:
    "growth_pass ex_geometry ex_controls ex_tumor_grid (\<lambda>n. unit_half) = (cs, r)"
    by (cases "growth_pass ex_geometry ex_controls ex_tumor_grid (\<lambda>n. unit_half)")
  have c: "cells ex_contact = ex_tumor_grid" "random ex_contact = (\<lambda>n. unit_half)"
    "particles ex_contact = [0]"
    by (simp_all add: ex_contact_def)
  show ?thesis
    using ex_contact_rounds(1,4,6) [OF gp] by (simp add: c gp)
qed

text \<open>
  C3 at a failing input: the cytotoxic particle at address 2, spawned in the round of the
  contact, is at index 1 of \<^verbatim>\<open>particles\<close> after that round, and the next round of the same
  tick transports and ages it.
\<close>

theorem spawned_processed_in_same_tick:
  "(let (cs, r) = growth_pass ex_geometry ex_controls (cells ex_contact) (random ex_contact);
        s1 = ex_contact\<lparr>cells := cs, random := r, spawned := []\<rparr>;
        t1 = particle_iter ex_geometry ex_controls s1 0;
        t2 = particle_iter ex_geometry ex_controls t1 1
    in fresh s1 = 1 \<and> spawned t1 = [1, 2, 3, 4] \<and> particles t1 ! 1 = 2
       \<and> (ttl (heap t1 2) = Some 80 \<or> ttl (heap t1 2) = Some 220)
       \<and> heap t2 2 = transport ex_geometry ex_controls (cells t1) (age_particle (heap t1 2))
       \<and> ttl (heap t2 2) = map_option (\<lambda>v. v - 1) (ttl (heap t1 2))
       \<and> stepSimulation ex_geometry ex_controls ex_contact
            = particle_loop ex_geometry ex_controls t2 2)"
proof -
  obtain cs r where gp:
    "growth_pass ex_geometry ex_controls ex_tumor_grid (\<lambda>n. unit_half) = (cs, r)"
    by (cases "growth_pass ex_geometry ex_controls ex_tumor_grid (\<lambda>n. unit_half)")
  have c: "cells ex_contact = ex_tumor_grid" "random ex_contact = (\<lambda>n. unit_half)"
    "fresh ex_contact = 1"
    by (simp_all add: ex_contact_def)
  note rounds = ex_contact_rounds [OF gp]
  let ?t1 = "particle_iter ex_geometry ex_controls
               (ex_contact\<lparr>cells := cs, random := r, spawned := []\<rparr>) 0"
  have "newborn (heap ?t1 2)"
    using rounds(3) by (simp add: rounds(2))
  then have ttl1: "ttl (heap ?t1 2) = Some 80 \<or> ttl (heap ?t1 2) = Some 220"
    by (simp add: newborn_def)
  then have "ttl (transport ex_geometry ex_controls (cells ?t1) (age_particle (heap ?t1 2)))
      = map_option (\<lambda>v. v - 1) (ttl (heap ?t1 2))"
    by (auto simp: age_particle_def)
  then show ?thesis
    using rounds(1,2,5,6) ttl1 by (simp add: c gp)
qed


section \<open>Dosing\<close>

lemma nearest_scan_tumor:
  "nearest_scan cs ti x y best bestD = Some b \<Longrightarrow>
     best = Some b \<or> (ti \<le> b \<and> b - ti < length cs \<and> cstate (cs ! (b - ti)) = Tumor)"
proof (induction cs arbitrary: ti best bestD)
  case Nil
  then show ?case by simp
next
  case (Cons t ts)
  show ?case
  proof (cases "cstate t = Tumor \<and> hypot (cx t - x) (cy t - y) < bestD")
    case True
    with Cons.prems have "nearest_scan ts (Suc ti) x y (Some ti) (hypot (cx t - x) (cy t - y)) = Some b"
      by (simp add: Let_def)
    from Cons.IH [OF this] have "ti = b \<or> (Suc ti \<le> b \<and> b - Suc ti < length ts
        \<and> cstate (ts ! (b - Suc ti)) = Tumor)"
      by simp
    then show ?thesis
    proof
      assume "ti = b"
      then show ?thesis using True by simp
    next
      assume a: "Suc ti \<le> b \<and> b - Suc ti < length ts \<and> cstate (ts ! (b - Suc ti)) = Tumor"
      then have "b - ti = Suc (b - Suc ti)" by arith
      then show ?thesis using a by simp
    qed
  next
    case False
    with Cons.prems have "nearest_scan ts (Suc ti) x y best bestD = Some b"
      by (auto simp: Let_def split: if_splits)
    from Cons.IH [OF this] have "best = Some b \<or> (Suc ti \<le> b \<and> b - Suc ti < length ts
        \<and> cstate (ts ! (b - Suc ti)) = Tumor)"
      by simp
    then show ?thesis
    proof
      assume "best = Some b"
      then show ?thesis by simp
    next
      assume a: "Suc ti \<le> b \<and> b - Suc ti < length ts \<and> cstate (ts ! (b - Suc ti)) = Tumor"
      then have "b - ti = Suc (b - Suc ti)" by arith
      then show ?thesis using a by simp
    qed
  qed
qed

lemma nearestTumor_tumor: "nearestTumor cs x y = Some b \<Longrightarrow> tumor_at cs b"
  using nearest_scan_tumor [of cs 0 x y None 1000000000 b]
  by (simp add: nearestTumor_def tumor_at_def)

lemma fields_push_particle [simp]:
  "fresh (push_particle p s) = Suc (fresh s)"
  "particles (push_particle p s) = particles s @ [fresh s]"
  "cells (push_particle p s) = cells s" "spawned (push_particle p s) = spawned s"
  "heap (push_particle p s) b = (if b = fresh s then p else heap s b)"
  by (simp_all add: push_particle_def)

lemma fresh_step_rng [simp]: "fresh (step_rng s) = fresh s"
  by (simp add: step_rng_def)

lemma spawn_one_fields:
  "fresh (spawn_one g a s) = Suc (fresh s)"
  "particles (spawn_one g a s) = particles s @ [fresh s]"
  "cells (spawn_one g a s) = cells s"
  "spawned (spawn_one g a s) = spawned s"
  "b \<noteq> fresh s \<Longrightarrow> heap (spawn_one g a s) b = heap s b"
  by (simp_all add: spawn_one_def Let_def split: option.splits prod.splits)

lemma spawn_point_in_vessel:
  assumes "vessel_on_canvas g"
  shows "isInVesselXY g
           (vesselBoundaryX g (rnd r * canvas_height g) + 4
              + rnd r' * (canvas_width g - vesselBoundaryX g (rnd r * canvas_height g) - 4))
           (rnd r * canvas_height g)"
proof -
  let ?B = "vesselBoundaryX g (rnd r * canvas_height g)"
  have "?B + 4 \<le> canvas_width g"
    using assms rnd_range [of r] by (simp add: vessel_on_canvas_def)
  then have "0 \<le> rnd r' * (canvas_width g - ?B - 4)"
    using rnd_range [of r'] by simp
  then show ?thesis by (simp add: isInVesselXY_def)
qed

lemma spawn_one_in_vessel:
  assumes "vessel_on_canvas g"
  shows "in_vessel g (heap (spawn_one g a s) (fresh s))"
  using spawn_point_in_vessel [OF assms]
  by (auto simp: spawn_one_def Let_def in_vessel_def split: option.splits prod.splits if_splits)

lemma spawn_one_made: "dose_made (cells s) (heap (spawn_one g a s) (fresh s))"
  by (auto simp: spawn_one_def Let_def dose_made_def nearestTumor_tumor
      split: option.splits prod.splits if_splits)

lemma spawn_many:
  "fresh ((spawn_one g a ^^ n) s) = fresh s + n
   \<and> particles ((spawn_one g a ^^ n) s) = particles s @ [fresh s ..< fresh s + n]
   \<and> cells ((spawn_one g a ^^ n) s) = cells s
   \<and> (\<forall>b < fresh s. heap ((spawn_one g a ^^ n) s) b = heap s b)
   \<and> (\<forall>b \<in> set [fresh s ..< fresh s + n]. dose_made (cells s) (heap ((spawn_one g a ^^ n) s) b))
   \<and> (vessel_on_canvas g \<longrightarrow>
        (\<forall>b \<in> set [fresh s ..< fresh s + n]. in_vessel g (heap ((spawn_one g a ^^ n) s) b)))"
proof (induction n)
  case 0
  then show ?case by simp
next
  case (Suc n)
  let ?t = "(spawn_one g a ^^ n) s"
  from Suc have t: "fresh ?t = fresh s + n"
    "particles ?t = particles s @ [fresh s ..< fresh s + n]"
    "cells ?t = cells s"
    "\<forall>b < fresh s. heap ?t b = heap s b"
    "\<forall>b \<in> set [fresh s ..< fresh s + n]. dose_made (cells s) (heap ?t b)"
    "vessel_on_canvas g \<longrightarrow>
        (\<forall>b \<in> set [fresh s ..< fresh s + n]. in_vessel g (heap ?t b))"
    by simp_all
  have made: "dose_made (cells s) (heap (spawn_one g a ?t) b)"
    if b: "b \<in> set [fresh s ..< fresh s + Suc n]" for b
  proof (cases "b = fresh ?t")
    case True
    then show ?thesis using spawn_one_made [of ?t g a] by (simp add: t(3))
  next
    case False
    then have "b \<in> set [fresh s ..< fresh s + n]" using b t(1) by auto
    then show ?thesis using t(5) False by (simp add: spawn_one_fields)
  qed
  have inside: "in_vessel g (heap (spawn_one g a ?t) b)"
    if v: "vessel_on_canvas g" and b: "b \<in> set [fresh s ..< fresh s + Suc n]" for b
  proof (cases "b = fresh ?t")
    case True
    then show ?thesis using spawn_one_in_vessel [OF v, of a ?t] by simp
  next
    case False
    then have "b \<in> set [fresh s ..< fresh s + n]" using b t(1) by auto
    then show ?thesis using t(6) v False by (simp add: spawn_one_fields)
  qed
  show ?case
    using made inside by (simp add: spawn_one_fields t(1-4))
qed

text \<open>
  What the function of lines 347-388 does when it runs. A dose that is not a number or not
  positive leaves the state as it is. A positive dose adds exactly \<open>max 1 (round amount)\<close> new
  objects to \<^verbatim>\<open>particles\<close> and changes nothing else of the grid or the older particles; each
  new particle is a compound that either targets a site that is Tumor (steering aggression
  0.92, 400 ticks to live) or wanders (120 ticks to live); and it is inside the vessel,
  provided the vessel boundary stays 4 left of the right edge of the canvas.
\<close>

lemma dose_body:
  "spawnDrugParticles g None s = s
   \<and> (amount \<le> 0 \<longrightarrow> spawnDrugParticles g (Some amount) s = s)
   \<and> (0 < amount \<longrightarrow>
        (let n = nat (max 1 (js_round amount));
             s' = spawnDrugParticles g (Some amount) s
         in particles s' = particles s @ [fresh s ..< fresh s + n]
            \<and> length (particles s') = length (particles s) + n
            \<and> cells s' = cells s
            \<and> (\<forall>b < fresh s. heap s' b = heap s b)
            \<and> (\<forall>b \<in> set [fresh s ..< fresh s + n]. dose_made (cells s) (heap s' b))
            \<and> (vessel_on_canvas g \<longrightarrow>
                 (\<forall>b \<in> set [fresh s ..< fresh s + n]. in_vessel g (heap s' b)))))"
  using spawn_many [where g = g and a = amount and n = "nat (max 1 (js_round amount))" and s = s]
  by (simp add: spawnDrugParticles_def Let_def)

lemma vessel_on_canvas_ex: "vessel_on_canvas ex_geometry"
proof -
  have "vesselBoundaryX ex_geometry (t * canvas_height ex_geometry) + 4
          \<le> canvas_width ex_geometry" if "0 \<le> t" "t < 1" for t :: real
    using vesselBoundaryX_le [of ex_geometry "t * canvas_height ex_geometry"] that
    by (simp add: ex_geometry_def vesselX_def vessel_slope_def vessel_amplitude_def)
  then show ?thesis by (simp add: vessel_on_canvas_def)
qed

lemma stepSimulation_no_particles:
  "particles s = [] \<Longrightarrow> particles (stepSimulation g ctl s) = []"
  by (simp add: stepSimulation_def split_beta particle_loop_done)

lemma particles_seedInitial [simp]: "particles (seedInitial g ctl s) = particles s"
  by (simp add: seedInitial_def Let_def)

text \<open>
  C9 at a failing input: the page as loaded, or started, and no tick yet. The dose button
  (slider at 50) and a direct call \<^verbatim>\<open>spawnDrugParticles(5)\<close> raise \<^verbatim>\<open>ReferenceError\<close> and spawn
  nothing. After one tick the same call returns, with 5 new particles in \<^verbatim>\<open>particles\<close>.
\<close>

theorem dose_before_first_tick:
  "call_spawnDrugParticles ex_geometry (Some 5) ex_page = Inl ReferenceError
   \<and> giveDose ex_geometry ex_controls ex_page = Inl ReferenceError
   \<and> call_spawnDrugParticles ex_geometry (Some 5) (start_page ex_geometry ex_controls ex_page)
       = Inl ReferenceError
   \<and> giveDose ex_geometry ex_controls (start_page ex_geometry ex_controls ex_page)
       = Inl ReferenceError
   \<and> (let p = tick ex_geometry ex_controls (start_page ex_geometry ex_controls ex_page);
           s' = spawnDrugParticles ex_geometry (Some 5) (world p)
       in call_spawnDrugParticles ex_geometry (Some 5) p = Inr (p\<lparr>world := s'\<rparr>)
          \<and> particles (world p) = []
          \<and> particles s' = [fresh (world p) ..< fresh (world p) + 5]
          \<and> length (particles s') = 5)"
proof -
  let ?q = "start_page ex_geometry ex_controls ex_page"
  let ?p = "tick ex_geometry ex_controls ?q"
  let ?s' = "spawnDrugParticles ex_geometry (Some 5) (world ?p)"
  have un: "\<not> spawn_assigned ex_page" "\<not> spawn_assigned ?q" "spawn_assigned ?p"
    by (simp_all add: ex_page_def page_loaded_def start_page_def tick_def)
  have amount: "\<not> drugAmount ex_controls \<le> 0"
    by (simp add: ex_controls_def)
  have "particles (world ?q) = []"
    by (simp add: start_page_def start_def)
  then have none: "particles (world ?p) = []"
    by (simp add: tick_def stepSimulation_no_particles)
  have n: "nat (max 1 (js_round 5)) = 5" by (simp add: js_round_def)
  note body = dose_body [of ex_geometry "world ?p" 5, unfolded Let_def n]
  have "(0::real) < 5" by simp
  with body
  have ps: "particles ?s' = particles (world ?p) @ [fresh (world ?p) ..< fresh (world ?p) + 5]"
    by blast
  have ps': "particles ?s' = [fresh (world ?p) ..< fresh (world ?p) + 5]"
    using ps by (simp only: none append_Nil)
  have "length (particles ?s') = 5"
    by (simp only: ps' length_upt add_diff_cancel_left')
  moreover note ps'
  moreover have "call_spawnDrugParticles ex_geometry (Some 5) ?p = Inr (?p\<lparr>world := ?s'\<rparr>)"
    using un(3) by (simp add: call_spawnDrugParticles_def)
  ultimately show ?thesis
    using un(1,2) amount none
    by (simp add: call_spawnDrugParticles_def giveDose_def Let_def)
qed


section \<open>No tumor site in the vessel\<close>

lemma vessel_free_kill: "vessel_free g cs \<Longrightarrow> vessel_free g (kill i cs)"
proof -
  assume v: "vessel_free g cs"
  have "set (cs[i := (cs ! i)\<lparr>cstate := Healthy, csize := 0\<rparr>])
          \<subseteq> insert ((cs ! i)\<lparr>cstate := Healthy, csize := 0\<rparr>) (set cs)"
    by (rule set_update_subset_insert)
  then show ?thesis
    using v by (auto simp: vessel_free_def kill_def)
qed

lemma vessel_free_cascade_kill:
  "vessel_free g (cells s) \<Longrightarrow> vessel_free g (cells (cascade_kill g i s))"
  by (simp add: cascade_kill_def Let_def vessel_free_kill)

lemma vessel_free_split_one:
  "vessel_free g (cells s) \<Longrightarrow> vessel_free g (cells (split_one g c nt k s))"
  by (simp add: split_one_def Let_def vessel_free_kill vessel_free_cascade_kill
      split: option.splits)

lemma vessel_free_compound_contact:
  "vessel_free g (cells s) \<Longrightarrow> vessel_free g (cells (compound_contact g a s))"
  by (simp add: compound_contact_def Let_def vessel_free_kill vessel_free_split_one
      split: option.splits)

lemma vessel_free_cytotoxic_contact:
  "vessel_free g (cells s) \<Longrightarrow> vessel_free g (cells (cytotoxic_contact g a s))"
  by (simp add: cytotoxic_contact_def Let_def vessel_free_kill vessel_free_cascade_kill
      split: option.splits)

lemma vessel_free_interact:
  "vessel_free g (cells s) \<Longrightarrow> vessel_free g (cells (interact g a s))"
  by (simp add: interact_def Let_def vessel_free_compound_contact vessel_free_cytotoxic_contact)

lemma cells_append_purge [simp]:
  "cells (append_spawned s) = cells s" "cells (purge_dead s) = cells s"
  by (simp_all add: append_spawned_def purge_dead_def Let_def)

lemma vessel_free_particle_iter:
  "vessel_free g (cells s) \<Longrightarrow> vessel_free g (cells (particle_iter g ctl s i))"
  by (simp add: particle_iter_def Let_def vessel_free_interact)

lemma vessel_free_particle_loop:
  "vessel_free g (cells s) \<Longrightarrow> vessel_free g (cells (particle_loop g ctl s i))"
proof (induction g ctl s i rule: particle_loop.induct)
  case (1 g ctl s i)
  show ?case
  proof (cases "i < length (particles s)")
    case True
    then show ?thesis
      using 1 by (simp add: particle_loop_unfold vessel_free_particle_iter)
  next
    case False
    then show ?thesis using 1 by (simp add: particle_loop_done)
  qed
qed

lemma growth_mark_ok: "mark_ok g (fst (growth_mark g ctl cs i r)) (cs ! i)"
  by (simp add: growth_mark_def mark_ok_def Let_def)

lemma growth_marks_ok:
  "list_all2 (mark_ok g) (fst (growth_marks g ctl cs is r)) (map (\<lambda>i. cs ! i) is)"
proof (induction "is" arbitrary: r)
  case Nil
  then show ?case by simp
next
  case (Cons i "is")
  show ?case
    using growth_mark_ok [of g ctl cs i r] Cons
    by (simp add: split_beta Let_def)
qed

lemma vessel_free_growth_apply:
  "list_all2 (mark_ok g) ms cs \<Longrightarrow> vessel_free g cs
     \<Longrightarrow> vessel_free g (fst (growth_apply ms cs r))"
proof (induction ms cs r rule: growth_apply.induct)
  case (1 m ms c cs r)
  then show ?case
    by (auto simp: vessel_free_def mark_ok_def Let_def split_beta)
qed (simp_all add: vessel_free_def)

lemma vessel_free_growth_pass:
  "vessel_free g cs \<Longrightarrow> vessel_free g (fst (growth_pass g ctl cs r))"
  using growth_marks_ok [of g ctl cs "[0 ..< length cs]" r]
  by (simp add: growth_pass_def split_beta map_nth vessel_free_growth_apply)

lemma vessel_free_stepSimulation:
  "vessel_free g (cells s) \<Longrightarrow> vessel_free g (cells (stepSimulation g ctl s))"
  using vessel_free_growth_pass [of g "cells s" ctl "random s"]
  by (simp add: stepSimulation_def split_beta vessel_free_particle_loop)

lemma cells_spawnDrugParticles: "cells (spawnDrugParticles g dose s) = cells s"
  using spawn_many [where g = g and s = s]
  by (simp add: spawnDrugParticles_def Let_def split: option.splits)

lemma s_cells_enqueue [simp]: "s_cells (enqueue g n st) = s_cells st"
  by (simp add: enqueue_def Let_def)

lemma s_cells_fold_enqueue [simp]: "s_cells (fold (enqueue g) ns st) = s_cells st"
  by (induction ns arbitrary: st) simp_all

lemma s_cells_seed_spread [simp]: "s_cells (seed_spread g c st) = s_cells st"
  by (simp add: seed_spread_def Let_def split_beta)

lemma vessel_free_seed_convert:
  assumes "vessel_free g (s_cells st)"
    and "\<not> isInVesselXY g (cx (s_cells st ! idx)) (cy (s_cells st ! idx))"
  shows "vessel_free g (s_cells (seed_convert idx st))"
proof -
  let ?c = "(s_cells st ! idx)\<lparr>cstate := Tumor, csize := 12 + rnd (s_random st) * 10\<rparr>"
  have "set ((s_cells st)[idx := ?c]) \<subseteq> insert ?c (set (s_cells st))"
    by (rule set_update_subset_insert)
  then show ?thesis
    using assms by (auto simp: vessel_free_def seed_convert_def Let_def)
qed

lemma vessel_free_seed_step:
  "vessel_free g (s_cells st) \<Longrightarrow> vessel_free g (s_cells (seed_step g st))"
  by (simp add: seed_step_def Let_def vessel_free_seed_convert split: list.splits)

lemma vessel_free_seed_loop:
  "vessel_free g (s_cells st) \<Longrightarrow> vessel_free g (s_cells (seed_loop g n st))"
proof (induction g n st rule: seed_loop.induct)
  case (1 g n st)
  show ?case
  proof (cases "queue st \<noteq> [] \<and> seeded st < n")
    case True
    then have "seed_loop g n st = seed_loop g n (seed_step g st)"
      by (subst seed_loop.simps) simp
    then show ?thesis
      using 1 True by (simp add: vessel_free_seed_step)
  next
    case False
    then have "seed_loop g n st = st"
      by (subst seed_loop.simps) auto
    then show ?thesis using 1 by simp
  qed
qed

lemma vessel_free_seedInitial: "vessel_free g (cells (seedInitial g ctl s))"
proof -
  have "vessel_free g (map (\<lambda>c. c\<lparr>cstate := Healthy, csize := 0\<rparr>) (cells s))"
    by (auto simp: vessel_free_def)
  then show ?thesis
    by (simp add: seedInitial_def Let_def vessel_free_seed_loop)
qed

text \<open>
  C4. In every state the page can reach (after loading, after \<^verbatim>\<open>start\<close>, after any number
  of ticks and doses, with any slider values and any random draws), no site is Tumor and
  inside the vessel.
\<close>

theorem vessel_exclusion:
  "reachable g s \<Longrightarrow> vessel_free g (cells s)"
proof (induction rule: reachable.induct)
  case (loaded h f r)
  then show ?case by (auto simp: vessel_free_def dest: initCells_healthy)
next
  case (started s ctl)
  then show ?case by (simp add: start_def vessel_free_seedInitial)
next
  case (ticked s ctl)
  then show ?case by (simp add: vessel_free_stepSimulation)
next
  case (dosed s dose)
  then show ?case by (simp add: cells_spawnDrugParticles)
qed

theorem vessel_exclusion_witness:
  "reachable ex_geometry
     (stepSimulation ex_geometry ex_controls
        (spawnDrugParticles ex_geometry (Some 5) (start ex_geometry ex_controls ex_loaded)))
   \<and> vessel_free ex_geometry
        (cells (stepSimulation ex_geometry ex_controls
           (spawnDrugParticles ex_geometry (Some 5) (start ex_geometry ex_controls ex_loaded))))"
proof -
  have "reachable ex_geometry ex_loaded"
    unfolding ex_loaded_def by (rule reachable.loaded)
  then have r: "reachable ex_geometry
     (stepSimulation ex_geometry ex_controls
        (spawnDrugParticles ex_geometry (Some 5) (start ex_geometry ex_controls ex_loaded)))"
    by (intro reachable.ticked reachable.dosed reachable.started)
  show ?thesis
    using vessel_exclusion [OF r] r by simp
qed


text \<open>The states of the page are among those the invariant covers.\<close>

lemma page_reachable_covered: "page_reachable g p \<Longrightarrow> reachable g (world p)"
proof (induction rule: page_reachable.induct)
  case (page_is_loaded h r)
  then show ?case by (simp add: page_loaded_def reachable.loaded)
next
  case (page_started p ctl)
  then show ?case by (simp add: start_page_def reachable.started)
next
  case (page_ticked p ctl)
  then show ?case by (simp add: tick_def reachable.ticked)
next
  case (page_dosed p ctl p')
  then show ?case
    by (auto simp: giveDose_def call_spawnDrugParticles_def Let_def reachable.dosed
        split: if_splits)
next
  case (page_called p dose p')
  then show ?case
    by (auto simp: call_spawnDrugParticles_def reachable.dosed split: if_splits)
qed

section \<open>The seeded cluster is connected\<close>

lemma on_grid_length: "on_grid g cs \<Longrightarrow> length cs = nat (rows g) * nat (cols g)"
proof -
  assume "on_grid g cs"
  then have "length (map (\<lambda>c. (cx c, cy c)) cs) = length (map (\<lambda>c. (cx c, cy c)) (initCells g))"
    by (simp only: on_grid_def)
  then show ?thesis by (simp add: length_initCells)
qed

lemma on_grid_pos:
  assumes "on_grid g cs" and "k < length cs"
  shows "cx (cs ! k) = spacing / 2 + of_nat (k mod nat (cols g)) * spacing"
    and "cy (cs ! k) = spacing / 2 + of_nat (k div nat (cols g)) * spacing"
proof -
  have k: "k < nat (rows g) * nat (cols g)"
    using assms on_grid_length by simp
  have "map (\<lambda>c. (cx c, cy c)) cs ! k = map (\<lambda>c. (cx c, cy c)) (initCells g) ! k"
    using assms(1) by (simp only: on_grid_def)
  then have "(cx (cs ! k), cy (cs ! k)) = (cx (initCells g ! k), cy (initCells g ! k))"
    using assms(2) k by (simp add: length_initCells)
  then show "cx (cs ! k) = spacing / 2 + of_nat (k mod nat (cols g)) * spacing"
    and "cy (cs ! k) = spacing / 2 + of_nat (k div nat (cols g)) * spacing"
    using k by (simp_all add: initCells_flat)
qed

lemma js_round_lattice: "js_round ((spacing / 2 + of_nat m * spacing - spacing / 2) / spacing) = int m"
proof -
  have "(spacing / 2 + of_nat m * spacing - spacing / 2) / spacing = of_nat m"
    by (simp add: spacing_def)
  moreover have "\<lfloor>(of_nat m :: real) + 1 / 2\<rfloor> = int m"
    by (rule floor_unique) simp_all
  ultimately show ?thesis by (simp add: js_round_def)
qed

lemma on_grid_coords:
  assumes "on_grid g cs" and "k < length cs"
  shows "grid_ix (cs ! k) = int (k mod nat (cols g))"
    and "grid_iy (cs ! k) = int (k div nat (cols g))"
  using js_round_lattice
  by (simp_all add: grid_ix_def grid_iy_def on_grid_pos [OF assms])

lemma neighbour_adjacent:
  assumes og: "on_grid g cs" and k: "k < length cs"
    and off: "(ox, oy) \<in> set neighbor_offsets"
    and n: "0 \<le> cellIndex g (grid_ix (cs ! k) + ox) (grid_iy (cs ! k) + oy)"
  shows "nat (cellIndex g (grid_ix (cs ! k) + ox) (grid_iy (cs ! k) + oy)) < length cs"
    and "adjacent8 (cs ! k) (cs ! nat (cellIndex g (grid_ix (cs ! k) + ox) (grid_iy (cs ! k) + oy)))"
proof -
  let ?nc = "nat (cols g)"
  let ?ix = "int (k mod ?nc)" and ?iy = "int (k div ?nc)"
  let ?n = "cellIndex g (?ix + ox) (?iy + oy)"
  have co: "grid_ix (cs ! k) = ?ix" "grid_iy (cs ! k) = ?iy"
    using on_grid_coords [OF og k] by simp_all
  from n have b: "0 \<le> ?ix + ox" "?ix + ox < cols g" "0 \<le> ?iy + oy" "?iy + oy < rows g"
    and nv: "?n = (?iy + oy) * cols g + (?ix + ox)"
    by (auto simp: co cellIndex_def split: if_splits)
  define jx where "jx = nat (?ix + ox)"
  define jy where "jy = nat (?iy + oy)"
  have j: "int jx = ?ix + ox" "int jy = ?iy + oy" "jx < ?nc" "jy < nat (rows g)"
    using b by (simp_all add: jx_def jy_def)
  have "int (jy * ?nc + jx) = ?n"
    using j b by (simp add: nv)
  then have nn: "nat ?n = jy * ?nc + jx" by linarith
  have "jy * ?nc + jx < nat (rows g) * ?nc"
  proof -
    have "Suc jy * ?nc \<le> nat (rows g) * ?nc"
      using j(4) by (intro mult_le_mono1) simp
    then show ?thesis using j(3) by simp
  qed
  then have lt: "nat ?n < length cs"
    using on_grid_length [OF og] by (simp add: nn)
  then show "nat (cellIndex g (grid_ix (cs ! k) + ox) (grid_iy (cs ! k) + oy)) < length cs"
    by (simp add: co)
  have dm: "nat ?n mod ?nc = jx" "nat ?n div ?nc = jy"
    using j(3) by (simp_all add: nn)
  have px: "cx (cs ! nat ?n) = spacing / 2 + of_nat jx * spacing"
    "cy (cs ! nat ?n) = spacing / 2 + of_nat jy * spacing"
    using on_grid_pos [OF og lt] by (simp_all add: dm)
  have rx: "(of_nat jx :: real) = of_nat (k mod ?nc) + of_int ox"
    "(of_nat jy :: real) = of_nat (k div ?nc) + of_int oy"
  proof -
    have "(of_nat jx :: real) = of_int (int jx)" by simp
    also have "\<dots> = of_int (?ix + ox)" by (simp only: j)
    finally show "(of_nat jx :: real) = of_nat (k mod ?nc) + of_int ox" by simp
    have "(of_nat jy :: real) = of_int (int jy)" by simp
    also have "\<dots> = of_int (?iy + oy)" by (simp only: j)
    finally show "(of_nat jy :: real) = of_nat (k div ?nc) + of_int oy" by simp
  qed
  have "adjacent8 (cs ! k) (cs ! nat ?n)"
    using off
    by (auto simp: adjacent8_def on_grid_pos [OF og k] px rx neighbor_offsets_def spacing_def)
  then show "adjacent8 (cs ! k) (cs ! nat (cellIndex g (grid_ix (cs ! k) + ox) (grid_iy (cs ! k) + oy)))"
    by (simp add: co)
qed

lemma shuffle_set: "i < length xs \<Longrightarrow> set (fst (shuffle i xs r)) = set xs"
proof (induction i arbitrary: xs r)
  case 0
  then show ?case by simp
next
  case (Suc i)
  let ?j = "nat \<lfloor>rnd r * of_nat (Suc i + 1)\<rfloor>"
  have "rnd r * of_nat (Suc i + 1) < of_nat (Suc i + 1)"
    using rnd_range [of r] by simp
  then have "\<lfloor>rnd r * of_nat (Suc i + 1)\<rfloor> < int (Suc i + 1)"
    by (simp add: floor_less_iff)
  then have j: "?j < length xs" using Suc.prems by linarith
  let ?ys = "xs[Suc i := xs ! ?j, ?j := xs ! Suc i]"
  have "set ?ys = set xs"
    using Suc.prems j by (rule set_swap)
  moreover have "set (fst (shuffle i ?ys (adv r))) = set ?ys"
    using Suc.prems by (intro Suc.IH) simp
  ultimately show ?case by (simp add: Let_def)
qed

lemma queue_enqueue:
  "j \<in> set (queue (enqueue g n st)) \<Longrightarrow>
     j \<in> set (queue st) \<or> (0 \<le> cellIndex g (fst n) (snd n) \<and> j = nat (cellIndex g (fst n) (snd n)))"
  by (cases "0 \<le> cellIndex g (fst n) (snd n) \<and> nat (cellIndex g (fst n) (snd n)) \<notin> seen st")
     (auto simp: enqueue_def Let_def)

lemma queue_fold_enqueue:
  "j \<in> set (queue (fold (enqueue g) ns st)) \<Longrightarrow>
     j \<in> set (queue st)
     \<or> (\<exists>n \<in> set ns. 0 \<le> cellIndex g (fst n) (snd n) \<and> j = nat (cellIndex g (fst n) (snd n)))"
proof (induction ns arbitrary: st)
  case Nil
  then show ?case by simp
next
  case (Cons n ns)
  from Cons.prems have "j \<in> set (queue (fold (enqueue g) ns (enqueue g n st)))" by simp
  from Cons.IH [OF this] queue_enqueue [of j g n st] show ?case by auto
qed

lemma queue_seed_spread:
  assumes "j \<in> set (queue (seed_spread g c st))"
  shows "j \<in> set (queue st)
     \<or> (\<exists>(ox, oy) \<in> set neighbor_offsets.
           0 \<le> cellIndex g (grid_ix c + ox) (grid_iy c + oy)
           \<and> j = nat (cellIndex g (grid_ix c + ox) (grid_iy c + oy)))"
proof -
  let ?neigh = "map (\<lambda>(ox, oy). (grid_ix c + ox, grid_iy c + oy)) neighbor_offsets"
  obtain ns r where sh: "shuffle (length ?neigh - 1) ?neigh (s_random st) = (ns, r)"
    by (cases "shuffle (length ?neigh - 1) ?neigh (s_random st)")
  have sp: "seed_spread g c st = fold (enqueue g) ns (st\<lparr>s_random := r\<rparr>)"
    unfolding seed_spread_def Let_def sh by simp
  have "length ?neigh - 1 < length ?neigh" by (simp add: neighbor_offsets_def)
  from shuffle_set [OF this, of "s_random st"] have ns: "set ns = set ?neigh"
    by (simp only: sh fst_conv)
  from assms have "j \<in> set (queue (fold (enqueue g) ns (st\<lparr>s_random := r\<rparr>)))"
    by (simp only: sp)
  from queue_fold_enqueue [OF this] show ?thesis
    by (auto simp: ns)
qed

lemma seed_convert_cells:
  assumes "idx < length (s_cells st)"
  shows "length (s_cells (seed_convert idx st)) = length (s_cells st)"
    and "cx (s_cells (seed_convert idx st) ! a) = cx (s_cells st ! a)"
    and "cy (s_cells (seed_convert idx st) ! a) = cy (s_cells st ! a)"
    and "tumor_at (s_cells (seed_convert idx st)) k \<longleftrightarrow> tumor_at (s_cells st) k \<or> k = idx"
    and "queue (seed_convert idx st) = queue st"
proof -
  show "length (s_cells (seed_convert idx st)) = length (s_cells st)"
    by (simp add: seed_convert_def Let_def)
  show "cx (s_cells (seed_convert idx st) ! a) = cx (s_cells st ! a)"
    using assms by (cases "a = idx") (simp_all add: seed_convert_def Let_def)
  show "cy (s_cells (seed_convert idx st) ! a) = cy (s_cells st ! a)"
    using assms by (cases "a = idx") (simp_all add: seed_convert_def Let_def)
  show "tumor_at (s_cells (seed_convert idx st)) k \<longleftrightarrow> tumor_at (s_cells st) k \<or> k = idx"
  proof (cases "cstate (s_cells st ! idx)")
    case Healthy
    then show ?thesis
      using assms by (cases "k = idx") (simp_all add: seed_convert_def Let_def tumor_at_def)
  next
    case Tumor
    then show ?thesis
      using assms by (auto simp: seed_convert_def Let_def tumor_at_def)
  qed
  show "queue (seed_convert idx st) = queue st"
    by (simp add: seed_convert_def Let_def)
qed

lemma adjacent8_pos:
  "cx c' = cx c \<Longrightarrow> cy c' = cy c \<Longrightarrow> cx d' = cx d \<Longrightarrow> cy d' = cy d
     \<Longrightarrow> adjacent8 c' d' = adjacent8 c d"
  by (simp add: adjacent8_def)

lemma adjacent8_sym: "adjacent8 c d \<Longrightarrow> adjacent8 d c"
  by (auto simp: adjacent8_def abs_minus_commute)

lemma sym_tumor_links: "sym (tumor_links cs)"
  by (rule symI) (auto simp: tumor_links_def adjacent8_sym)

lemma on_grid_pos_eq:
  assumes "on_grid g cs" and "length cs' = length cs"
    and "\<And>a. cx (cs' ! a) = cx (cs ! a)" and "\<And>a. cy (cs' ! a) = cy (cs ! a)"
  shows "on_grid g cs'"
proof -
  have "map (\<lambda>c. (cx c, cy c)) cs' = map (\<lambda>c. (cx c, cy c)) cs"
    using assms(2-4) by (intro nth_equalityI) simp_all
  then show ?thesis using assms(1) by (simp add: on_grid_def)
qed

lemma seed_inv_dequeue:
  assumes "seed_inv g s0 st" and "queue st = idx # rest"
  shows "seed_inv g s0 (st\<lparr>queue := rest\<rparr>)"
  using assms by (auto simp: seed_inv_def)

lemma seed_inv_convert_spread:
  assumes inv: "seed_inv g s0 st" and q: "queue st = idx # rest"
    and idx: "idx < length (s_cells st)"
  shows "seed_inv g s0 (seed_spread g (s_cells st ! idx) (seed_convert idx (st\<lparr>queue := rest\<rparr>)))"
proof -
  let ?cs = "s_cells st"
  let ?st1 = "st\<lparr>queue := rest\<rparr>"
  let ?st2 = "seed_convert idx ?st1"
  let ?cs' = "s_cells ?st2"
  let ?res = "seed_spread g (?cs ! idx) ?st2"
  have idx1: "idx < length (s_cells ?st1)" using idx by simp
  note cv = seed_convert_cells [OF idx1]
  have len: "length ?cs' = length ?cs" using cv(1) by simp
  have pos: "cx (?cs' ! a) = cx (?cs ! a)" "cy (?cs' ! a) = cy (?cs ! a)" for a
    using cv(2,3) [of a] by simp_all
  have tum: "tumor_at ?cs' k \<longleftrightarrow> tumor_at ?cs k \<or> k = idx" for k
    using cv(4) [of k] by simp
  have adj: "adjacent8 (?cs' ! a) (?cs' ! b) = adjacent8 (?cs ! a) (?cs ! b)" for a b
    by (rule adjacent8_pos) (simp_all only: pos)
  have og: "on_grid g ?cs" using inv by (simp add: seed_inv_def)
  have og': "on_grid g ?cs'"
    using og len pos by (rule on_grid_pos_eq)
  have mono: "tumor_links ?cs \<subseteq> tumor_links ?cs'"
    by (auto simp: tumor_links_def tum adj)
  have linked: "seed_linked ?cs' s0"
  proof (cases "\<forall>k. \<not> tumor_at ?cs k")
    case True
    then have "queue st = [] \<or> queue st = [s0]"
      using inv by (auto simp: seed_inv_def seed_linked_def)
    then have s0: "idx = s0" using q by simp
    have "(s0, k) \<in> (tumor_links ?cs')\<^sup>*" if "tumor_at ?cs' k" for k
    proof -
      from that have "tumor_at ?cs k \<or> k = idx" by (simp only: tum)
      with True have "k = s0" by (simp add: s0)
      then show ?thesis by simp
    qed
    moreover have "tumor_at ?cs' idx"
      by (simp only: tum simp_thms)
    then have "tumor_at ?cs' s0" by (simp only: s0)
    ultimately show ?thesis
      unfolding seed_linked_def by blast
  next
    case False
    then have l: "seed_linked ?cs s0"
      and qa: "\<forall>j \<in> set (queue st). \<exists>t. tumor_at ?cs t \<and> adjacent8 (?cs ! t) (?cs ! j)"
      using inv by (auto simp: seed_inv_def)
    from qa obtain t where t: "tumor_at ?cs t" "adjacent8 (?cs ! t) (?cs ! idx)"
      by (auto simp: q)
    have "(s0, k) \<in> (tumor_links ?cs')\<^sup>*" if k: "tumor_at ?cs' k" for k
    proof (cases "tumor_at ?cs k")
      case True
      then have "(s0, k) \<in> (tumor_links ?cs)\<^sup>*"
        using l by (simp add: seed_linked_def)
      then show ?thesis
        using rtrancl_mono [OF mono] by blast
    next
      case False
      then have ki: "k = idx" using k by (simp add: tum)
      have "(s0, t) \<in> (tumor_links ?cs)\<^sup>*"
        using l t(1) by (simp add: seed_linked_def)
      then have st': "(s0, t) \<in> (tumor_links ?cs')\<^sup>*"
        using rtrancl_mono [OF mono] by blast
      have "(t, idx) \<in> tumor_links ?cs'"
        using t by (simp add: tumor_links_def tum adj)
      then show ?thesis
        using st' ki by (simp add: rtrancl_into_rtrancl)
    qed
    moreover have "tumor_at ?cs' s0"
      using l by (simp add: seed_linked_def tum)
    ultimately show ?thesis by (simp add: seed_linked_def)
  qed
  have queue_ok: "\<exists>t. tumor_at ?cs' t \<and> adjacent8 (?cs' ! t) (?cs' ! j)"
    if j: "j \<in> set (queue ?res)" for j
  proof -
    from queue_seed_spread [OF j]
    consider (old) "j \<in> set rest"
      | (new) ox oy where "(ox, oy) \<in> set neighbor_offsets"
          "0 \<le> cellIndex g (grid_ix (?cs ! idx) + ox) (grid_iy (?cs ! idx) + oy)"
          "j = nat (cellIndex g (grid_ix (?cs ! idx) + ox) (grid_iy (?cs ! idx) + oy))"
      by (auto simp: cv(5))
    then show ?thesis
    proof cases
      case old
      then have "j \<in> set (queue st)" by (simp add: q)
      moreover have "\<not> (\<forall>k. \<not> tumor_at ?cs k)"
      proof
        assume "\<forall>k. \<not> tumor_at ?cs k"
        then have "queue st = [] \<or> queue st = [s0]"
          using inv by (auto simp: seed_inv_def seed_linked_def)
        then show False using q old by auto
      qed
      ultimately obtain t where "tumor_at ?cs t" "adjacent8 (?cs ! t) (?cs ! j)"
        using inv by (auto simp: seed_inv_def)
      then show ?thesis
        by (auto simp: tum adj)
    next
      case new
      have "adjacent8 (?cs ! idx) (?cs ! j)"
        using neighbour_adjacent(2) [OF og idx new(1,2)] by (simp only: new(3))
      then show ?thesis
        by (auto simp: tum adj)
    qed
  qed
  have "s_cells ?res = ?cs'" by simp
  then show ?thesis
    using og' linked queue_ok by (simp add: seed_inv_def)
qed

lemma seed_inv_step:
  assumes "seed_inv g s0 st" and "queue st \<noteq> []"
  shows "seed_inv g s0 (seed_step g st)"
proof -
  obtain idx rest where q: "queue st = idx # rest"
    using assms(2) by (cases "queue st") auto
  show ?thesis
  proof (cases "idx < length (s_cells st)
      \<and> \<not> isInVesselXY g (cx (s_cells st ! idx)) (cy (s_cells st ! idx))")
    case True
    then have "seed_step g st
        = seed_spread g (s_cells st ! idx) (seed_convert idx (st\<lparr>queue := rest\<rparr>))"
      by (simp add: seed_step_def q Let_def)
    then show ?thesis
      using seed_inv_convert_spread [OF assms(1) q] True by simp
  next
    case False
    then have "seed_step g st = st\<lparr>queue := rest\<rparr>"
      by (auto simp: seed_step_def q Let_def)
    then show ?thesis
      using seed_inv_dequeue [OF assms(1) q] by simp
  qed
qed

lemma seed_inv_loop:
  "seed_inv g s0 st \<Longrightarrow> seed_inv g s0 (seed_loop g n st)"
proof (induction g n st rule: seed_loop.induct)
  case (1 g n st)
  show ?case
  proof (cases "queue st \<noteq> [] \<and> seeded st < n")
    case True
    then have "seed_loop g n st = seed_loop g n (seed_step g st)"
      by (subst seed_loop.simps) simp
    then show ?thesis
      using 1 True by (simp add: seed_inv_step)
  next
    case False
    then have "seed_loop g n st = st"
      by (subst seed_loop.simps) auto
    then show ?thesis using 1 by simp
  qed
qed

lemma seed_inv_connected: "seed_inv g s0 st \<Longrightarrow> connected8 (s_cells st)"
proof -
  assume inv: "seed_inv g s0 st"
  let ?R = "tumor_links (s_cells st)"
  have "(i, j) \<in> ?R\<^sup>*" if "tumor_at (s_cells st) i" "tumor_at (s_cells st) j" for i j
  proof -
    from inv that have l: "seed_linked (s_cells st) s0"
      by (auto simp: seed_inv_def)
    then have "(s0, i) \<in> ?R\<^sup>*" "(s0, j) \<in> ?R\<^sup>*"
      using that by (simp_all add: seed_linked_def)
    moreover have "sym (?R\<^sup>*)" by (rule sym_rtrancl) (rule sym_tumor_links)
    ultimately have "(i, s0) \<in> ?R\<^sup>*" by (auto dest: symD)
    from this \<open>(s0, j) \<in> ?R\<^sup>*\<close> show ?thesis by (rule rtrancl_trans)
  qed
  then show ?thesis by (simp add: connected8_def)
qed

lemma seed_alive_step:
  assumes al: "seed_alive g s0 st" and ne: "queue st \<noteq> []"
  shows "seed_alive g s0 (seed_step g st)"
proof -
  obtain idx rest where q: "queue st = idx # rest"
    using ne by (cases "queue st") auto
  let ?st1 = "st\<lparr>queue := rest\<rparr>"
  show ?thesis
  proof (cases "idx < length (s_cells st)
      \<and> \<not> isInVesselXY g (cx (s_cells st ! idx)) (cy (s_cells st ! idx))")
    case True
    then have idx1: "idx < length (s_cells ?st1)" by simp
    note cv = seed_convert_cells [OF idx1]
    have step: "seed_step g st = seed_spread g (s_cells st ! idx) (seed_convert idx ?st1)"
      using True by (simp add: seed_step_def q Let_def)
    have "tumor_at (s_cells (seed_convert idx ?st1)) idx"
      by (simp only: cv(4) simp_thms)
    then have "\<exists>k. tumor_at (s_cells (seed_convert idx ?st1)) k" ..
    then show ?thesis
      using al cv(1) cv(2) [of s0] cv(3) [of s0] by (simp add: seed_alive_def step)
  next
    case False
    then have step: "seed_step g st = ?st1"
      by (auto simp: seed_step_def q Let_def)
    have "\<exists>k. tumor_at (s_cells st) k"
    proof (rule ccontr)
      assume "\<not> (\<exists>k. tumor_at (s_cells st) k)"
      then have "queue st = [s0]" using al by (simp add: seed_alive_def)
      then have "idx = s0" using q by simp
      then show False using al False by (simp add: seed_alive_def)
    qed
    then show ?thesis
      using al by (simp add: seed_alive_def step)
  qed
qed

lemma seed_alive_loop:
  "seed_alive g s0 st \<Longrightarrow> seed_alive g s0 (seed_loop g n st)"
proof (induction g n st rule: seed_loop.induct)
  case (1 g n st)
  show ?case
  proof (cases "queue st \<noteq> [] \<and> seeded st < n")
    case True
    then have "seed_loop g n st = seed_loop g n (seed_step g st)"
      by (subst seed_loop.simps) simp
    then show ?thesis
      using 1 True by (simp add: seed_alive_step)
  next
    case False
    then have "seed_loop g n st = st"
      by (subst seed_loop.simps) auto
    then show ?thesis using 1 by simp
  qed
qed

lemma seed_loop_exit: "queue (seed_loop g n st) = [] \<or> n \<le> seeded (seed_loop g n st)"
proof (induction g n st rule: seed_loop.induct)
  case (1 g n st)
  show ?case
  proof (cases "queue st \<noteq> [] \<and> seeded st < n")
    case True
    then have "seed_loop g n st = seed_loop g n (seed_step g st)"
      by (subst seed_loop.simps) simp
    then show ?thesis
      using 1 True by simp
  next
    case False
    then have "seed_loop g n st = st"
      by (subst seed_loop.simps) auto
    then show ?thesis using False by auto
  qed
qed

lemma seed_alive_seeded:
  assumes "seed_alive g s0 st" and "0 < n"
  shows "\<exists>k. tumor_at (s_cells (seed_loop g n st)) k"
  using seed_alive_loop [OF assms(1), of n] seed_loop_exit [of g n st] assms(2)
  by (auto simp: seed_alive_def)

text \<open>
  C5. Right after \<^verbatim>\<open>seedInitial\<close> has run on a grid whose sites are where \<^verbatim>\<open>initCells\<close>
  puts them, any two Tumor sites are joined by a chain of 8-adjacent Tumor sites, and no
  Tumor site lies inside the vessel; this for every slider value and all random draws.
  The cluster is not empty if the start site is on the grid and outside the vessel.
\<close>

theorem seeded_cluster_connected:
  assumes "on_grid g (cells s)"
  shows "connected8 (cells (seedInitial g ctl s))
   \<and> vessel_free g (cells (seedInitial g ctl s))
   \<and> (seedStartIdx g s < length (cells s)
        \<and> \<not> isInVesselXY g (cx (cells s ! seedStartIdx g s)) (cy (cells s ! seedStartIdx g s))
       \<longrightarrow> (\<exists>k. tumor_at (cells (seedInitial g ctl s)) k))"
proof (intro conjI impI)
  let ?cs0 = "map (\<lambda>c. c\<lparr>cstate := Healthy, csize := 0\<rparr>) (cells s)"
  let ?n = "nat (max 3 (js_round (max 0 (min 100 (startAmount ctl)) / 100 * 45)))"
  let ?st0 = "\<lparr>s_cells = ?cs0, s_random = adv (random s), queue = [seedStartIdx g s],
               seen = {seedStartIdx g s}, seeded = 0\<rparr>"
  have cells: "cells (seedInitial g ctl s) = s_cells (seed_loop g ?n ?st0)"
    by (simp add: seedInitial_def Let_def)
  have og: "on_grid g ?cs0"
    using assms by (simp add: on_grid_def comp_def)
  have "\<not> tumor_at ?cs0 k" for k
    by (simp add: tumor_at_def)
  then have "seed_inv g (seedStartIdx g s) ?st0"
    using og by (simp add: seed_inv_def)
  then have "seed_inv g (seedStartIdx g s) (seed_loop g ?n ?st0)"
    by (rule seed_inv_loop)
  then have "connected8 (s_cells (seed_loop g ?n ?st0))"
    by (rule seed_inv_connected)
  then show "connected8 (cells (seedInitial g ctl s))"
    by (simp only: cells)
  show "vessel_free g (cells (seedInitial g ctl s))"
    by (rule vessel_free_seedInitial)
  assume a: "seedStartIdx g s < length (cells s)
        \<and> \<not> isInVesselXY g (cx (cells s ! seedStartIdx g s)) (cy (cells s ! seedStartIdx g s))"
  then have "seed_alive g (seedStartIdx g s) ?st0"
    by (simp add: seed_alive_def)
  moreover have "0 < ?n" by simp
  ultimately have "\<exists>k. tumor_at (s_cells (seed_loop g ?n ?st0)) k"
    by (rule seed_alive_seeded)
  then show "\<exists>k. tumor_at (cells (seedInitial g ctl s)) k"
    by (simp only: cells)
qed

lemma ex_seed_geometry_grid: "cols ex_seed_geometry = 50" "rows ex_seed_geometry = 28"
  by (simp_all add: cols_def rows_def ex_seed_geometry_def spacing_def)

lemma ex_seed_start: "seedStartIdx ex_seed_geometry ex_seed_state = 730"
proof -
  have yc: "canvas_height ex_seed_geometry * (0.35 + rnd (random ex_seed_state) * 0.3) = 260"
    by (simp add: ex_seed_geometry_def ex_seed_state_def)
  have bx: "vesselBoundaryX ex_seed_geometry 260 = 3024 / 5"
    by (simp add: vesselBoundaryX_def vesselX_def vessel_slope_def vessel_amplitude_def
        vessel_freq_def ex_seed_geometry_def)
  have ix: "js_round ((max spacing (3024 / 5 - spacing * 3) - spacing / 2) / spacing) = 30"
    by (simp add: js_round_def spacing_def)
  have iy: "js_round ((260 - spacing / 2) / spacing) = 14"
    by (simp add: js_round_def spacing_def)
  show ?thesis
    unfolding seedStartIdx_def Let_def yc bx ix iy
    by (simp add: cellIndex_def ex_seed_geometry_grid)
qed

theorem seeded_cluster_connected_witness:
  "on_grid ex_seed_geometry (cells ex_seed_state)
   \<and> seedStartIdx ex_seed_geometry ex_seed_state < length (cells ex_seed_state)
   \<and> \<not> isInVesselXY ex_seed_geometry
         (cx (cells ex_seed_state ! seedStartIdx ex_seed_geometry ex_seed_state))
         (cy (cells ex_seed_state ! seedStartIdx ex_seed_geometry ex_seed_state))
   \<and> connected8 (cells (seedInitial ex_seed_geometry ex_controls ex_seed_state))
   \<and> vessel_free ex_seed_geometry (cells (seedInitial ex_seed_geometry ex_controls ex_seed_state))
   \<and> (\<exists>k. tumor_at (cells (seedInitial ex_seed_geometry ex_controls ex_seed_state)) k)"
proof -
  have c: "cells ex_seed_state = initCells ex_seed_geometry"
    by (simp add: ex_seed_state_def)
  have og: "on_grid ex_seed_geometry (cells ex_seed_state)"
    by (simp add: on_grid_def c)
  have len: "length (cells ex_seed_state) = 1400"
    by (simp add: c length_initCells ex_seed_geometry_grid)
  have pos: "cx (cells ex_seed_state ! 730) = 549" "cy (cells ex_seed_state ! 730) = 261"
    by (simp_all add: c initCells_flat ex_seed_geometry_grid spacing_def)
  have out: "\<not> isInVesselXY ex_seed_geometry 549 261"
    using vesselBoundaryX_ge [of ex_seed_geometry 261]
    by (simp add: isInVesselXY_def vesselX_def vessel_slope_def vessel_amplitude_def
        ex_seed_geometry_def)
  show ?thesis
    using seeded_cluster_connected [OF og, of ex_controls] og out
    by (simp add: ex_seed_start len pos)
qed

end
